theory Spec2Isabelle
  imports Main "HOL-Library.AList" "HOL-Library.Monad_Syntax"
begin

section \<open>Net Rate Decomposition Tool: the client script \<open>static/js/app.js\<close>\<close>

text \<open>
  The script is a collection of browser utilities. Each function is embedded as a HOL
  function of the same name. What JavaScript leaves implicit is made explicit here:
  the page, the clock, the time zone and the persisted store are arguments, and an
  exception is the \<open>Inl\<close> branch of a sum.

  JavaScript numbers are IEEE-754 doubles. Where a function only adds and compares
  them, the number type is a type parameter with the operations of its type class, so
  that what is proved for every such type does not depend on how \<open>+\<close> rounds; the
  doubles with an integral value, with the rounding addition, are one instance.
  Integral quantities (milliseconds since the epoch, calendar fields, HTTP status
  codes) are \<open>int\<close>.
\<close>

subsection \<open>Utility functions\<close>

text \<open>
  \<open>formatCurrency\<close>, \<open>formatNumber\<close> and \<open>formatPercent\<close> each pass their argument
  (\<open>formatPercent\<close>: the argument divided by 100) to \<open>Intl.NumberFormat('en-US', ...)\<close>.
  Their results are decided by the division of doubles and by the locale data of the
  platform, so they have no definition here.
\<close>

subsection \<open>Chart utilities: the segments of the waterfall chart\<close>

record 'a drivers =
  payer_mix :: 'a
  allowed_rates :: 'a
  units_per_visit :: 'a
  cpt_mix :: 'a
  copay_leakage :: 'a
  writeoffs_denials :: 'a
  operational_leakage :: 'a
  documentation_issues :: 'a

record 'a RateDecomposition =
  start_net_rate :: 'a
  end_net_rate :: 'a
  drivers :: "'a drivers"

text \<open>
  One element of \<open>chartData\<close>: \<open>{x: i, y: [lo, hi], backgroundColor: c}\<close>. The
  fields carry the prefix \<open>seg_\<close> because \<open>x\<close> and \<open>y\<close> are wanted as variables.
\<close>

record 'a segment =
  seg_x :: nat
  seg_y :: "'a \<times> 'a"
  seg_backgroundColor :: string

definition labels :: "string list" where
  "labels =
     [''Start Rate'', ''Payer Mix'', ''Allowed Rates'', ''Units/Visit'', ''CPT Mix'',
      ''Copay Collection'', ''Write-offs/Denials'', ''Operational'', ''Documentation'',
      ''End Rate'']"

definition values_of :: "'a RateDecomposition \<Rightarrow> 'a list" where
  "values_of data =
     [start_net_rate data,
      payer_mix (drivers data),
      allowed_rates (drivers data),
      units_per_visit (drivers data),
      cpt_mix (drivers data),
      copay_leakage (drivers data),
      writeoffs_denials (drivers data),
      operational_leakage (drivers data),
      documentation_issues (drivers data),
      end_net_rate data]"

text \<open>
  The loop \<open>for (let i = 1; i < values.length - 1; i++)\<close>, with the two variables it
  updates: \<open>cumulative\<close> and the array \<open>chartData\<close> (\<open>push\<close> appends). It returns
  both as they stand when the loop ends.
\<close>

function waterfall_loop ::
  "('a::{plus,zero,ord}) list \<Rightarrow> nat \<Rightarrow> 'a \<Rightarrow> 'a segment list \<Rightarrow> 'a \<times> 'a segment list"
where
  "waterfall_loop vals i cumulative chartData =
     (if i < length vals - 1 then
        (let change = vals ! i;
             newCumulative = cumulative + change
         in waterfall_loop vals (i + 1) newCumulative
              (chartData @
                 [\<lparr>seg_x = i,
                   seg_y = (cumulative, newCumulative),
                   seg_backgroundColor = (if change \<ge> 0 then ''#28a745'' else ''#dc3545'')\<rparr>]))
      else (cumulative, chartData))"
  by pat_completeness auto
termination
  by (relation "measure (\<lambda>(vals, i, cumulative, chartData). length vals - 1 - i)") auto

text \<open>
  Lines 119 to 158 of \<open>createWaterfallChart\<close>: the start bar, the loop over the
  drivers, the end bar. The result pairs the value of \<open>cumulative\<close> after the loop
  with the finished \<open>chartData\<close>.
\<close>

definition waterfall :: "('a::{plus,zero,ord}) RateDecomposition \<Rightarrow> 'a \<times> 'a segment list" where
  "waterfall data =
     (let vals = values_of data;
          cumulative = start_net_rate data;
          chartData = [\<lparr>seg_x = 0, seg_y = (0, cumulative), seg_backgroundColor = ''#007bff''\<rparr>];
          (cumulative', chartData') = waterfall_loop vals 1 cumulative chartData
      in (cumulative',
          chartData' @
            [\<lparr>seg_x = length labels - 1,
              seg_y = (0, end_net_rate data),
              seg_backgroundColor = ''#007bff''\<rparr>]))"

definition chartData_of :: "('a::{plus,zero,ord}) RateDecomposition \<Rightarrow> 'a segment list" where
  "chartData_of data = snd (waterfall data)"

text \<open>The driver values in the order of the loop: \<open>values[1]\<close> to \<open>values[8]\<close>.\<close>

definition driver_values :: "'a RateDecomposition \<Rightarrow> 'a list" where
  "driver_values data = take 8 (drop 1 (values_of data))"

text \<open>
  The segments the loop appends for the values from position \<open>i\<close> on, as a function
  of the running cumulative: the loop read off as structural recursion.
\<close>

fun driver_segments :: "nat \<Rightarrow> ('a::{plus,zero,ord}) \<Rightarrow> 'a list \<Rightarrow> 'a segment list" where
  "driver_segments i c [] = []"
| "driver_segments i c (v # vs) =
     \<lparr>seg_x = i, seg_y = (c, c + v),
      seg_backgroundColor = (if v \<ge> 0 then ''#28a745'' else ''#dc3545'')\<rparr>
     # driver_segments (Suc i) (c + v) vs"

text \<open>
  A decomposition over the integers with the spec's drivers (\<open>payer_mix: -50\<close>,
  \<open>allowed_rates: 30\<close>) and a zero driver, used to instantiate the theorems.
\<close>

definition sample_decomposition :: "int RateDecomposition" where
  "sample_decomposition =
     \<lparr>start_net_rate = 1000, end_net_rate = 963,
      drivers = \<lparr>payer_mix = - 50, allowed_rates = 30, units_per_visit = 0, cpt_mix = 12,
                 copay_leakage = - 7, writeoffs_denials = - 20, operational_leakage = - 5,
                 documentation_issues = 3\<rparr>\<rparr>"

subsection \<open>Doubles with an integral value\<close>

text \<open>
  JavaScript adds numbers as IEEE-754 doubles: the exact sum is rounded to the nearest
  value with 53 significant bits, a tie going to the even significand. \<open>Dbl n\<close> is
  the double whose value is the integer \<open>n\<close>, for the integers that 53 significant
  bits represent (those with \<open>round_double n = n\<close>); the exact sum of two of them is an
  integer, so the rounded sum is in the type again. Sums beyond the largest finite
  double are not modelled.
\<close>

function bit_length :: "nat \<Rightarrow> nat" where
  "bit_length n = (if n = 0 then 0 else Suc (bit_length (n div 2)))"
  by pat_completeness auto
termination
  by (relation "measure id") auto

declare bit_length.simps [simp del]

definition round_double :: "int \<Rightarrow> int" where
  "round_double n =
     (let a = nat \<bar>n\<bar>;
          e = bit_length a - 53
      in if e = 0 then n
         else
           (let q = a div 2 ^ e;
                r = a mod 2 ^ e;
                half = 2 ^ (e - 1);
                q' = (if half < r \<or> (r = half \<and> odd q) then q + 1 else q)
            in sgn n * int (q' * 2 ^ e)))"

datatype integral_double = Dbl int

instantiation integral_double :: "{plus, zero, ord}"
begin

definition plus_integral_double :: "integral_double \<Rightarrow> integral_double \<Rightarrow> integral_double" where
  "plus_integral_double x y = (case (x, y) of (Dbl a, Dbl b) \<Rightarrow> Dbl (round_double (a + b)))"

definition zero_integral_double :: integral_double where
  "zero_integral_double = Dbl 0"

definition less_eq_integral_double :: "integral_double \<Rightarrow> integral_double \<Rightarrow> bool" where
  "less_eq_integral_double x y = (case (x, y) of (Dbl a, Dbl b) \<Rightarrow> a \<le> b)"

definition less_integral_double :: "integral_double \<Rightarrow> integral_double \<Rightarrow> bool" where
  "less_integral_double x y = (case (x, y) of (Dbl a, Dbl b) \<Rightarrow> a < b)"

instance ..

end

text \<open>
  A decomposition in doubles: start \<open>10\<^sup>1\<^sup>6\<close>, two drivers of 1, the others 0, and
  the end \<open>10\<^sup>1\<^sup>6 + 2\<close>. All are representable.
\<close>

definition rounding_decomposition :: "integral_double RateDecomposition" where
  "rounding_decomposition =
     \<lparr>start_net_rate = Dbl 10000000000000000, end_net_rate = Dbl 10000000000000002,
      drivers = \<lparr>payer_mix = Dbl 1, allowed_rates = Dbl 1, units_per_visit = Dbl 0,
                 cpt_mix = Dbl 0, copay_leakage = Dbl 0, writeoffs_denials = Dbl 0,
                 operational_leakage = Dbl 0, documentation_issues = Dbl 0\<rparr>\<rparr>"

subsection \<open>JavaScript values\<close>

text \<open>
  The values that have a JSON text: \<open>null\<close>, booleans, numbers, strings, arrays and
  objects. An object is the list of its properties in iteration order. The number type
  is the parameter \<open>'n\<close>; \<open>undefined\<close> is not a value of this type: where a property
  read can yield it, the read returns an \<open>option\<close>.
\<close>

datatype 'n jsval =
    JNull
  | JBool bool
  | JNum 'n
  | JStr string
  | JArr "'n jsval list"
  | JObj "(string \<times> 'n jsval) list"

text \<open>
  \<open>Array.prototype.join\<close> on elements that are strings already: the separator goes
  between consecutive elements.
\<close>

fun join :: "string \<Rightarrow> string list \<Rightarrow> string" where
  "join sep [] = []"
| "join sep [x] = x"
| "join sep (x # y # ys) = x @ sep @ join sep (y # ys)"

text \<open>
  \<open>ToString\<close> of a value, given the platform's number-to-string conversion \<open>ns\<close>.
  An array converts as \<open>join(',')\<close> does, which renders \<open>null\<close> elements as the
  empty string.
\<close>

fun ToString :: "('n \<Rightarrow> string) \<Rightarrow> 'n jsval \<Rightarrow> string" where
  "ToString ns JNull = ''null''"
| "ToString ns (JBool b) = (if b then ''true'' else ''false'')"
| "ToString ns (JNum n) = ns n"
| "ToString ns (JStr s) = s"
| "ToString ns (JArr xs) = join '','' (map (\<lambda>x. if x = JNull then [] else ToString ns x) xs)"
| "ToString ns (JObj fs) = ''[object Object]''"

text \<open>
  The string \<open>join\<close> gives one element of an array: empty for \<open>undefined\<close> (\<open>None\<close>)
  and \<open>null\<close>, \<open>ToString\<close> otherwise.
\<close>

definition element_string :: "('n \<Rightarrow> string) \<Rightarrow> 'n jsval option \<Rightarrow> string" where
  "element_string ns e =
     (case e of None \<Rightarrow> [] | Some JNull \<Rightarrow> [] | Some v \<Rightarrow> ToString ns v)"

definition Array_join :: "('n \<Rightarrow> string) \<Rightarrow> string \<Rightarrow> 'n jsval option list \<Rightarrow> string" where
  "Array_join ns sep xs = join sep (map (element_string ns) xs)"

text \<open>
  \<open>Number.prototype.toString\<close> on an integral number below \<open>10\<^sup>2\<^sup>1\<close> in magnitude:
  the decimal digits, with a minus sign for a negative number.
\<close>

definition digit_char :: "nat \<Rightarrow> char" where
  "digit_char d = ''0123456789'' ! d"

function nat_digits :: "nat \<Rightarrow> string" where
  "nat_digits n = (if n < 10 then [digit_char n] else nat_digits (n div 10) @ [digit_char (n mod 10)])"
  by pat_completeness auto
termination
  by (relation "measure id") auto

declare nat_digits.simps [simp del]

definition Number_toString :: "int \<Rightarrow> string" where
  "Number_toString i = (if i < 0 then CHR ''-'' # nat_digits (nat (- i)) else nat_digits (nat i))"

subsection \<open>Export data utilities\<close>

definition Object_keys :: "(string \<times> 'v) list \<Rightarrow> string list" where
  "Object_keys obj = map fst obj"

definition dquote :: char where
  "dquote = CHR 0x22"

text \<open>
  \<open>convertToCSV(data)\<close>. \<open>None\<close> is a \<open>data\<close> that is \<open>null\<close> or \<open>undefined\<close>. A
  header that a row lacks reads as \<open>undefined\<close>, which is not a string and which
  \<open>join\<close> renders as the empty string.
\<close>

definition convertToCSV ::
  "('n \<Rightarrow> string) \<Rightarrow> (string \<times> 'n jsval) list list option \<Rightarrow> string" where
  "convertToCSV ns data =
     (case data of
        None \<Rightarrow> []
      | Some rows \<Rightarrow>
          if length rows = 0 then []
          else
            (let headers = Object_keys (rows ! 0);
                 csvHeaders = join '','' headers;
                 csvRows =
                   map (\<lambda>row.
                          Array_join ns '',''
                            (map (\<lambda>header.
                                    (let v = map_of row header
                                     in case v of
                                          Some (JStr s) \<Rightarrow> Some (JStr ([dquote] @ s @ [dquote]))
                                        | _ \<Rightarrow> v))
                               headers))
                     rows
             in join [CHR 0x0A] (csvHeaders # csvRows)))"

text \<open>
  \<open>exportToCSV(data, filename)\<close> wraps the CSV text in a blob of type \<open>text/csv\<close>
  and clicks a link that downloads it under \<open>filename\<close>; the download is its effect.
\<close>

record download =
  download_filename :: string
  download_type :: string
  download_content :: string

definition exportToCSV ::
  "('n \<Rightarrow> string) \<Rightarrow> (string \<times> 'n jsval) list list option \<Rightarrow> string \<Rightarrow> download" where
  "exportToCSV ns data filename =
     (let csv = convertToCSV ns data
      in \<lparr>download_filename = filename, download_type = ''text/csv'', download_content = csv\<rparr>)"

text \<open>
  The reference encoding, following the spec's words (section 4.7): the header row is
  the keys of the first record; every other row emits, for every header, the field's
  raw value, wrapped in double quotes only if it is textual, with no escaping; an empty
  input gives the empty string. The raw value of a field that is not a string is the
  string JavaScript gives it inside \<open>join\<close>. Records are uniform when each has the
  keys of the first.
\<close>

definition raw_value :: "('n \<Rightarrow> string) \<Rightarrow> 'n jsval \<Rightarrow> string" where
  "raw_value ns v = (if v = JNull then [] else ToString ns v)"

definition csv_field :: "('n \<Rightarrow> string) \<Rightarrow> 'n jsval \<Rightarrow> string" where
  "csv_field ns v = (case v of JStr s \<Rightarrow> [dquote] @ s @ [dquote] | _ \<Rightarrow> raw_value ns v)"

definition uniform :: "(string \<times> 'v) list list \<Rightarrow> bool" where
  "uniform rows = list_all (\<lambda>r. set (map fst r) = set (map fst (hd rows))) rows"

definition csv_reference :: "('n \<Rightarrow> string) \<Rightarrow> (string \<times> 'n jsval) list list \<Rightarrow> string" where
  "csv_reference ns rows =
     (if rows = [] then []
      else join [CHR 0x0A]
             (join '','' (map fst (hd rows))
              # map (\<lambda>r. join '','' (map (\<lambda>h. csv_field ns (the (map_of r h))) (map fst (hd rows)))) rows))"

subsection \<open>The page\<close>

text \<open>
  An element of the document: tag name, class tokens (\<open>className\<close> is the tokens
  joined by spaces, \<open>classList\<close> the tokens), attributes, the markup assigned to
  \<open>innerHTML\<close> (kept as the string assigned, not parsed), and the child elements that
  DOM calls inserted.
\<close>

datatype element =
  Element (tagName: string) (classList: "string list") (attributes: "(string \<times> string) list")
    (innerHTML: string) (children: "element list")

definition createElement :: "string \<Rightarrow> element" where
  "createElement tag = Element tag [] [] [] []"

definition classList_add :: "string \<Rightarrow> element \<Rightarrow> element" where
  "classList_add token e =
     (case e of Element t cl at m ch \<Rightarrow>
        Element t (if token \<in> set cl then cl else cl @ [token]) at m ch)"

definition classList_remove :: "string \<Rightarrow> element \<Rightarrow> element" where
  "classList_remove token e =
     (case e of Element t cl at m ch \<Rightarrow> Element t (filter (\<lambda>c. c \<noteq> token) cl) at m ch)"

definition setAttribute :: "string \<Rightarrow> string \<Rightarrow> element \<Rightarrow> element" where
  "setAttribute name v e =
     (case e of Element t cl at m ch \<Rightarrow> Element t cl (AList.update name v at) m ch)"

text \<open>
  \<open>parent.insertBefore(child, parent.firstChild)\<close>: the new child comes first; with
  no first child the reference node is \<open>null\<close> and the child is appended, which is
  the same list.
\<close>

definition insertBefore_firstChild :: "element \<Rightarrow> element \<Rightarrow> element" where
  "insertBefore_firstChild child parent =
     (case parent of Element t cl at m ch \<Rightarrow> Element t cl at m (child # ch))"

text \<open>
  \<open>element.querySelector('.c')\<close>: the first descendant, in document order, that has
  the class token; \<open>remove_first\<close> is the children with that descendant removed
  (\<open>spinner.remove()\<close>), \<open>None\<close> when there is none.
\<close>

fun querySelector_class :: "string \<Rightarrow> element list \<Rightarrow> element option" where
  "querySelector_class c [] = None"
| "querySelector_class c (Element t cl at m ch # es) =
     (if c \<in> set cl then Some (Element t cl at m ch)
      else (case querySelector_class c ch of
              Some e \<Rightarrow> Some e
            | None \<Rightarrow> querySelector_class c es))"

fun remove_first :: "string \<Rightarrow> element list \<Rightarrow> element list option" where
  "remove_first c [] = None"
| "remove_first c (Element t cl at m ch # es) =
     (if c \<in> set cl then Some es
      else (case remove_first c ch of
              Some ch' \<Rightarrow> Some (Element t cl at m ch' # es)
            | None \<Rightarrow> map_option ((#) (Element t cl at m ch)) (remove_first c es)))"

definition set_className :: "string list \<Rightarrow> element \<Rightarrow> element" where
  "set_className tokens e = (case e of Element t cl at m ch \<Rightarrow> Element t tokens at m ch)"

definition set_innerHTML :: "string \<Rightarrow> element \<Rightarrow> element" where
  "set_innerHTML html e = (case e of Element t cl at m ch \<Rightarrow> Element t cl at html [])"

definition set_children :: "element list \<Rightarrow> element \<Rightarrow> element" where
  "set_children ch' e = (case e of Element t cl at m ch \<Rightarrow> Element t cl at m ch')"

subsection \<open>Loading state management\<close>

definition setLoadingState :: "element \<Rightarrow> bool \<Rightarrow> element" where
  "setLoadingState element isLoading =
     (if isLoading then
        (let element1 = classList_add ''loading'' element;
             spinner0 = createElement ''div'';
             spinner1 = set_className [''spinner-border'', ''spinner-border-sm'', ''me-2''] spinner0;
             spinner = setAttribute ''role'' ''status'' spinner1
         in insertBefore_firstChild spinner element1)
      else
        (let element1 = classList_remove ''loading'' element
         in case querySelector_class ''spinner-border'' (children element1) of
              None \<Rightarrow> element1
            | Some spinner \<Rightarrow>
                (case remove_first ''spinner-border'' (children element1) of
                   None \<Rightarrow> element1
                 | Some ch' \<Rightarrow> set_children ch' element1)))"

text \<open>The spinner children of an element: its children with the class \<open>spinner-border\<close>.\<close>

definition spinner_children :: "element \<Rightarrow> element list" where
  "spinner_children e = filter (\<lambda>c. ''spinner-border'' \<in> set (classList c)) (children e)"

subsection \<open>Errors, alerts and the API helper\<close>

datatype js_error =
    Error string
  | TypeError string
  | SyntaxError string
  | RangeError string

text \<open>
  What the script sees of the page: the element \<open>document.querySelector('.container')\<close>
  finds, if any; the timers set by \<open>setTimeout\<close> (delay and the alert the callback
  removes); and the lines written with \<open>console.error\<close>.
\<close>

record page =
  container :: "element option"
  timers :: "(nat \<times> element) list"
  console :: "(string \<times> js_error) list"

definition close_button :: string where
  "close_button =
     ''<button type='' @ [dquote] @ ''button'' @ [dquote] @ '' class='' @ [dquote] @ ''btn-close''
       @ [dquote] @ '' data-bs-dismiss='' @ [dquote] @ ''alert'' @ [dquote] @ ''></button>''"

text \<open>The template literal assigned to \<open>alertDiv.innerHTML\<close>, line breaks included.\<close>

definition alert_html :: "string \<Rightarrow> string" where
  "alert_html message =
     [CHR 0x0A] @ ''        '' @ message @ [CHR 0x0A] @ ''        '' @ close_button
       @ [CHR 0x0A] @ ''    ''"

definition error_alert :: "string \<Rightarrow> element" where
  "error_alert message =
     set_innerHTML (alert_html message)
       (set_className [''alert'', ''alert-danger'', ''alert-dismissible'', ''fade'', ''show'']
          (createElement ''div''))"

definition success_alert :: "string \<Rightarrow> element" where
  "success_alert message =
     set_innerHTML (alert_html message)
       (set_className [''alert'', ''alert-success'', ''alert-dismissible'', ''fade'', ''show'']
          (createElement ''div''))"

text \<open>
  \<open>showError(message)\<close>. With no \<open>.container\<close> in the page, \<open>querySelector\<close>
  returns \<open>null\<close> and \<open>container.insertBefore\<close> throws a \<open>TypeError\<close>; nothing has
  been inserted or scheduled by then.
\<close>

definition showError :: "string \<Rightarrow> page \<Rightarrow> js_error + page" where
  "showError message p =
     (let alertDiv = error_alert message
      in case container p of
           None \<Rightarrow> Inl (TypeError ''container is null'')
         | Some c \<Rightarrow>
             Inr (p\<lparr>container := Some (insertBefore_firstChild alertDiv c),
                     timers := timers p @ [(5000, alertDiv)]\<rparr>))"

definition showSuccess :: "string \<Rightarrow> page \<Rightarrow> js_error + page" where
  "showSuccess message p =
     (let alertDiv = success_alert message
      in case container p of
           None \<Rightarrow> Inl (TypeError ''container is null'')
         | Some c \<Rightarrow>
             Inr (p\<lparr>container := Some (insertBefore_firstChild alertDiv c),
                     timers := timers p @ [(3000, alertDiv)]\<rparr>))"

text \<open>
  The outcome of \<open>fetch(url)\<close>: the promise rejects with a transport error, or
  resolves with a response. \<open>response.json()\<close> rejects when the body is not JSON.
\<close>

record 'n response =
  ok :: bool
  status :: int
  json :: "js_error + 'n jsval"

datatype 'n fetch_result = Rejected js_error | Responded "'n response"

text \<open>
  \<open>apiRequest(url)\<close>, with the network as a function of the URL. The result is the page
  afterwards and either the parsed body or the error the promise rejects with. The
  \<open>try\<close> block is \<open>attempt\<close>; the \<open>catch\<close> block logs, calls \<open>showError\<close> and
  rethrows, unless \<open>showError\<close> itself throws.
\<close>

definition apiRequest ::
  "(string \<Rightarrow> 'n fetch_result) \<Rightarrow> string \<Rightarrow> page \<Rightarrow> page \<times> (js_error + 'n jsval)" where
  "apiRequest fetch url p =
     (let attempt =
            (case fetch url of
               Rejected e \<Rightarrow> Inl e
             | Responded response \<Rightarrow>
                 if \<not> ok response
                 then Inl (Error (''HTTP error! status: '' @ Number_toString (status response)))
                 else json response)
      in case attempt of
           Inr body \<Rightarrow> (p, Inr body)
         | Inl error \<Rightarrow>
             (let p1 = p\<lparr>console := console p @ [(''API request failed:'', error)]\<rparr>
              in case showError ''Failed to load data. Please try again.'' p1 of
                   Inl thrown \<Rightarrow> (p1, Inl thrown)
                 | Inr p2 \<Rightarrow> (p2, Inl error)))"

text \<open>A button with no children, and pages with and without a container.\<close>

definition sample_button :: element where
  "sample_button = Element ''button'' [''btn''] [] [] []"

definition sample_page :: page where
  "sample_page = \<lparr>container = Some (Element ''div'' [''container''] [] [] []), timers = [], console = []\<rparr>"

definition bare_page :: page where
  "bare_page = \<lparr>container = None, timers = [], console = []\<rparr>"

definition failing_fetch :: "string \<Rightarrow> int fetch_result" where
  "failing_fetch url = Responded \<lparr>ok = False, status = 500, json = Inl (SyntaxError ''no body'')\<rparr>"

subsection \<open>Dates\<close>

text \<open>
  The \<open>Date\<close> built-in, after ECMAScript's definitions (section "Time Values and Time
  Range"): a time value is the number of milliseconds since 1 January 1970 UTC, and
  the calendar fields are functions of it with the names the standard gives them.
\<close>

definition msPerDay :: int where
  "msPerDay = 86400000"

definition Day :: "int \<Rightarrow> int" where
  "Day t = t div msPerDay"

definition TimeWithinDay :: "int \<Rightarrow> int" where
  "TimeWithinDay t = t mod msPerDay"

definition DaysInYear :: "int \<Rightarrow> int" where
  "DaysInYear y =
     (if y mod 4 \<noteq> 0 then 365
      else if y mod 100 \<noteq> 0 then 366
      else if y mod 400 \<noteq> 0 then 365
      else 366)"

definition DayFromYear :: "int \<Rightarrow> int" where
  "DayFromYear y =
     365 * (y - 1970) + (y - 1969) div 4 - (y - 1901) div 100 + (y - 1601) div 400"

definition TimeFromYear :: "int \<Rightarrow> int" where
  "TimeFromYear y = msPerDay * DayFromYear y"

text \<open>
  \<open>YearFromTime(t)\<close> is the largest year \<open>y\<close> with \<open>TimeFromYear(y) \<le> t\<close>. It is
  computed from an estimate by the mean length of a year, corrected by at most one;
  \<open>YearFromDay_bracket\<close> and \<open>YearFromDay_unique\<close> below show that the result is that
  year.
\<close>

definition YearFromDay :: "int \<Rightarrow> int" where
  "YearFromDay d =
     (let y0 = 1970 + (400 * d) div 146097
      in if d < DayFromYear y0 then y0 - 1
         else if DayFromYear (y0 + 1) \<le> d then y0 + 1
         else y0)"

definition YearFromTime :: "int \<Rightarrow> int" where
  "YearFromTime t = YearFromDay (Day t)"


definition InLeapYear :: "int \<Rightarrow> int" where
  "InLeapYear t = (if DaysInYear (YearFromTime t) = 366 then 1 else 0)"

definition DayWithinYear :: "int \<Rightarrow> int" where
  "DayWithinYear t = Day t - DayFromYear (YearFromTime t)"

text \<open>
  The month (0 to 11) and the day of the month (from 1) of day \<open>d\<close> within a year,
  where \<open>l\<close> is 1 in a leap year and 0 otherwise: the tables of \<open>MonthFromTime\<close> and
  \<open>DateFromTime\<close>.
\<close>

definition month_in_year :: "int \<Rightarrow> int \<Rightarrow> int" where
  "month_in_year d l =
     (if d < 31 then 0
      else if d < 59 + l then 1
      else if d < 90 + l then 2
      else if d < 120 + l then 3
      else if d < 151 + l then 4
      else if d < 181 + l then 5
      else if d < 212 + l then 6
      else if d < 243 + l then 7
      else if d < 273 + l then 8
      else if d < 304 + l then 9
      else if d < 334 + l then 10
      else 11)"

definition date_in_year :: "int \<Rightarrow> int \<Rightarrow> int" where
  "date_in_year d l =
     (let m = month_in_year d l
      in if m = 0 then d + 1
         else if m = 1 then d - 30
         else if m = 2 then d - 58 - l
         else if m = 3 then d - 89 - l
         else if m = 4 then d - 119 - l
         else if m = 5 then d - 150 - l
         else if m = 6 then d - 180 - l
         else if m = 7 then d - 211 - l
         else if m = 8 then d - 242 - l
         else if m = 9 then d - 272 - l
         else if m = 10 then d - 303 - l
         else d - 333 - l)"

definition MonthFromTime :: "int \<Rightarrow> int" where
  "MonthFromTime t = month_in_year (DayWithinYear t) (InLeapYear t)"

definition DateFromTime :: "int \<Rightarrow> int" where
  "DateFromTime t = date_in_year (DayWithinYear t) (InLeapYear t)"

definition HourFromTime :: "int \<Rightarrow> int" where
  "HourFromTime t = (t div 3600000) mod 24"

definition MinFromTime :: "int \<Rightarrow> int" where
  "MinFromTime t = (t div 60000) mod 60"

definition SecFromTime :: "int \<Rightarrow> int" where
  "SecFromTime t = (t div 1000) mod 60"

definition msFromTime :: "int \<Rightarrow> int" where
  "msFromTime t = t mod 1000"

definition MakeTime :: "int \<Rightarrow> int \<Rightarrow> int \<Rightarrow> int \<Rightarrow> int" where
  "MakeTime hour minute sec ms = hour * 3600000 + minute * 60000 + sec * 1000 + ms"

text \<open>
  The day within a year on which month \<open>mn\<close> (0 to 11) starts; \<open>l\<close> is 1 in a leap
  year and 0 otherwise.
\<close>

definition month_start :: "int \<Rightarrow> int \<Rightarrow> int" where
  "month_start l mn =
     (if mn = 0 then 0
      else if mn = 1 then 31
      else if mn = 2 then 59 + l
      else if mn = 3 then 90 + l
      else if mn = 4 then 120 + l
      else if mn = 5 then 151 + l
      else if mn = 6 then 181 + l
      else if mn = 7 then 212 + l
      else if mn = 8 then 243 + l
      else if mn = 9 then 273 + l
      else if mn = 10 then 304 + l
      else 334 + l)"

text \<open>
  \<open>MakeDay(year, month, date)\<close>: months beyond 0 to 11 carry into the year, and the
  date counts on from the first of the month, so that day 29 of February in a common
  year is the first of March.
\<close>

definition MakeDay :: "int \<Rightarrow> int \<Rightarrow> int \<Rightarrow> int" where
  "MakeDay year month date =
     (let ym = year + month div 12;
          mn = month mod 12;
          l = (if DaysInYear ym = 366 then 1 else 0)
      in DayFromYear ym + month_start l mn + date - 1)"

definition DaysInMonth :: "int \<Rightarrow> int \<Rightarrow> int" where
  "DaysInMonth y m =
     (if m = 1 then (if DaysInYear y = 366 then 29 else 28)
      else if m = 3 \<or> m = 5 \<or> m = 8 \<or> m = 10 then 30
      else 31)"

definition MakeDate :: "int \<Rightarrow> int \<Rightarrow> int" where
  "MakeDate day time = day * msPerDay + time"

text \<open>A time value is \<open>None\<close> when it is \<open>NaN\<close>, the time value of an invalid date.\<close>

definition TimeClip :: "int \<Rightarrow> int option" where
  "TimeClip time = (if \<bar>time\<bar> > 8640000000000000 then None else Some time)"

definition MakeFullYear :: "int \<Rightarrow> int" where
  "MakeFullYear year = (if 0 \<le> year \<and> year \<le> 99 then 1900 + year else year)"

text \<open>
  The time zone of the system is \<open>LocalTZA(t, isUTC)\<close>: the offset of local time from
  UTC in milliseconds, at the UTC instant \<open>t\<close> (\<open>isUTC\<close> true) or at the local time
  \<open>t\<close> (\<open>isUTC\<close> false).
\<close>

type_synonym timezone = "int \<Rightarrow> bool \<Rightarrow> int"

definition LocalTime :: "timezone \<Rightarrow> int \<Rightarrow> int" where
  "LocalTime tz t = t + tz t True"

definition UTC :: "timezone \<Rightarrow> int \<Rightarrow> int" where
  "UTC tz t = t - tz t False"

definition getFullYear :: "timezone \<Rightarrow> int \<Rightarrow> int" where
  "getFullYear tz t = YearFromTime (LocalTime tz t)"

definition getMonth :: "timezone \<Rightarrow> int \<Rightarrow> int" where
  "getMonth tz t = MonthFromTime (LocalTime tz t)"

definition getDate :: "timezone \<Rightarrow> int \<Rightarrow> int" where
  "getDate tz t = DateFromTime (LocalTime tz t)"

text \<open>\<open>new Date(year, month, date)\<close>: local midnight of that day, as a time value.\<close>

definition new_Date :: "timezone \<Rightarrow> int \<Rightarrow> int \<Rightarrow> int \<Rightarrow> int option" where
  "new_Date tz year month date =
     TimeClip (UTC tz (MakeDate (MakeDay (MakeFullYear year) month date) (MakeTime 0 0 0 0)))"

text \<open>Decimal digits of a number, padded with zeros on the left to a width.\<close>

definition pad :: "nat \<Rightarrow> int \<Rightarrow> string" where
  "pad n k = replicate (n - length (nat_digits (nat k))) (CHR ''0'') @ nat_digits (nat k)"

definition year_string :: "int \<Rightarrow> string" where
  "year_string y =
     (if 0 \<le> y \<and> y \<le> 9999 then pad 4 y
      else (if y < 0 then ''-'' else ''+'') @ pad 6 \<bar>y\<bar>)"

definition iso_date :: "int \<Rightarrow> int \<Rightarrow> int \<Rightarrow> string" where
  "iso_date y m d = year_string y @ ''-'' @ pad 2 (m + 1) @ ''-'' @ pad 2 d"

text \<open>
  \<open>toISOString\<close>: the UTC fields of the time value as
  \<open>YYYY-MM-DDTHH:mm:ss.sssZ\<close>; a \<open>RangeError\<close> on an invalid date.
\<close>

definition toISOString :: "int option \<Rightarrow> js_error + string" where
  "toISOString tv =
     (case tv of
        None \<Rightarrow> Inl (RangeError ''Invalid time value'')
      | Some t \<Rightarrow>
          Inr (iso_date (YearFromTime t) (MonthFromTime t) (DateFromTime t)
               @ ''T'' @ pad 2 (HourFromTime t) @ '':'' @ pad 2 (MinFromTime t)
               @ '':'' @ pad 2 (SecFromTime t) @ ''.'' @ pad 3 (msFromTime t) @ ''Z''))"

text \<open>\<open>s.split('T')[0]\<close>: the part of \<open>s\<close> before its first \<open>T\<close>, all of it if none.\<close>

definition split_T_0 :: "string \<Rightarrow> string" where
  "split_T_0 s = takeWhile (\<lambda>c. c \<noteq> CHR ''T'') s"

subsection \<open>Date utilities\<close>

record date_range =
  startDate :: string
  endDate :: string

text \<open>
  \<open>getDateRange(period)\<close>, with the time zone and the time value of \<open>new Date()\<close> as
  arguments.
\<close>

definition getDateRange :: "timezone \<Rightarrow> int \<Rightarrow> string \<Rightarrow> js_error + date_range" where
  "getDateRange tz now period =
     (case toISOString (Some now) of
        Inl e \<Rightarrow> Inl e
      | Inr nowISO \<Rightarrow>
          (let endDate = split_T_0 nowISO;
               start =
                 (if period = ''mtd'' then
                    new_Date tz (getFullYear tz now) (getMonth tz now) 1
                  else if period = ''qtd'' then
                    (let quarter = getMonth tz now div 3
                     in new_Date tz (getFullYear tz now) (quarter * 3) 1)
                  else if period = ''ytd'' then
                    new_Date tz (getFullYear tz now) 0 1
                  else if period = ''last_month'' then
                    new_Date tz (getFullYear tz now) (getMonth tz now - 1) 1
                  else
                    new_Date tz (getFullYear tz now - 1) (getMonth tz now) (getDate tz now))
           in case toISOString start of
                Inl e \<Rightarrow> Inl e
              | Inr startISO \<Rightarrow> Inr \<lparr>startDate = split_T_0 startISO, endDate = endDate\<rparr>))"

text \<open>Two zones without daylight saving: UTC, and nine hours east of it.\<close>

definition utc_zone :: timezone where
  "utc_zone t isUTC = 0"

definition tokyo_zone :: timezone where
  "tokyo_zone t isUTC = 32400000"

subsection \<open>Local storage utilities for tracking\<close>

text \<open>
  A string kept in \<open>localStorage\<close>. A JSON text is represented by the value it
  denotes, so that \<open>JSON.parse(JSON.stringify(v))\<close> is \<open>v\<close>; the other strings are
  the empty string, which is falsy, and the non-empty strings that are not JSON.
\<close>

datatype 'n stored = JsonText "'n jsval" | EmptyText | MalformedText

type_synonym 'n storage = "string \<rightharpoonup> 'n stored"

definition JSON_stringify :: "'n jsval \<Rightarrow> 'n stored" where
  "JSON_stringify v = JsonText v"

definition JSON_parse :: "'n stored \<Rightarrow> js_error + 'n jsval" where
  "JSON_parse s =
     (case s of
        JsonText v \<Rightarrow> Inr v
      | EmptyText \<Rightarrow> Inl (SyntaxError ''Unexpected end of JSON input'')
      | MalformedText \<Rightarrow> Inl (SyntaxError ''Unexpected token''))"

definition getTrackedItems :: "'n storage \<Rightarrow> js_error + 'n jsval" where
  "getTrackedItems store =
     (case store ''trackedItems'' of
        None \<Rightarrow> Inr (JArr [])
      | Some EmptyText \<Rightarrow> Inr (JArr [])
      | Some items \<Rightarrow> JSON_parse items)"

text \<open>
  The own enumerable properties that \<open>{...item}\<close> copies: the properties of an
  object, the indexed elements of an array or a string, nothing for the other values.
\<close>

definition spread :: "'n jsval \<Rightarrow> (string \<times> 'n jsval) list" where
  "spread item =
     (case item of
        JObj fs \<Rightarrow> fs
      | JArr xs \<Rightarrow> map (\<lambda>(i, x). (Number_toString (int i), x)) (enumerate 0 xs)
      | JStr s \<Rightarrow> map (\<lambda>(i, c). (Number_toString (int i), JStr [c])) (enumerate 0 s)
      | _ \<Rightarrow> [])"

text \<open>
  \<open>addTrackedItem(item)\<close>, with the store, the value of \<open>Date.now()\<close> and the time
  value of \<open>new Date()\<close> as arguments; it returns the store and \<open>items\<close>. A property
  set in an object literal after the spread replaces the value of a key that is there
  and is added last otherwise.
\<close>

definition addTrackedItem ::
  "'n jsval \<Rightarrow> 'n storage \<Rightarrow> int \<Rightarrow> int \<Rightarrow> js_error + ('n storage \<times> 'n jsval)" where
  "addTrackedItem item store now1 now2 =
     (case getTrackedItems store of
        Inl e \<Rightarrow> Inl e
      | Inr items \<Rightarrow>
          (case items of
             JArr xs \<Rightarrow>
               (case toISOString (Some now2) of
                  Inl e \<Rightarrow> Inl e
                | Inr stamp \<Rightarrow>
                    (let pushed =
                           JObj (AList.update ''dateAdded'' (JStr stamp)
                                   (AList.update ''id'' (JStr (Number_toString now1))
                                      (spread item)));
                         items' = JArr (xs @ [pushed])
                     in Inr (store(''trackedItems'' \<mapsto> JSON_stringify items'), items')))
           | _ \<Rightarrow> Inl (TypeError ''items.push is not a function'')))"

text \<open>
  \<open>item.id\<close>: a \<open>TypeError\<close> on \<open>null\<close>, the property of an object, \<open>undefined\<close>
  (\<open>None\<close>) when the object has no such property or the value is not an object.
\<close>

definition get_id :: "'n jsval \<Rightarrow> js_error + 'n jsval option" where
  "get_id item =
     (case item of
        JNull \<Rightarrow> Inl (TypeError ''Cannot read properties of null'')
      | JObj fs \<Rightarrow> Inr (map_of fs ''id'')
      | _ \<Rightarrow> Inr None)"

text \<open>
  \<open>a !== b\<close> for a property value \<open>a\<close> and an argument \<open>b\<close>: primitives compare by
  value; two objects or arrays are different references here, since the items come
  out of \<open>JSON.parse\<close>.
\<close>

definition strict_neq :: "'n jsval option \<Rightarrow> 'n jsval \<Rightarrow> bool" where
  "strict_neq a b =
     (case a of
        None \<Rightarrow> True
      | Some JNull \<Rightarrow> b \<noteq> JNull
      | Some (JBool x) \<Rightarrow> b \<noteq> JBool x
      | Some (JNum x) \<Rightarrow> b \<noteq> JNum x
      | Some (JStr x) \<Rightarrow> b \<noteq> JStr x
      | Some _ \<Rightarrow> True)"

fun filter_items :: "'n jsval \<Rightarrow> 'n jsval list \<Rightarrow> js_error + 'n jsval list" where
  "filter_items ident [] = Inr []"
| "filter_items ident (item # items) =
     (case get_id item of
        Inl e \<Rightarrow> Inl e
      | Inr p \<Rightarrow>
          (case filter_items ident items of
             Inl e \<Rightarrow> Inl e
           | Inr kept \<Rightarrow> Inr (if strict_neq p ident then item # kept else kept)))"

definition removeTrackedItem ::
  "'n jsval \<Rightarrow> 'n storage \<Rightarrow> js_error + ('n storage \<times> 'n jsval)" where
  "removeTrackedItem ident store =
     (case getTrackedItems store of
        Inl e \<Rightarrow> Inl e
      | Inr items \<Rightarrow>
          (case items of
             JArr xs \<Rightarrow>
               (case filter_items ident xs of
                  Inl e \<Rightarrow> Inl e
                | Inr filtered \<Rightarrow>
                    Inr (store(''trackedItems'' \<mapsto> JSON_stringify (JArr filtered)),
                         JArr filtered))
           | _ \<Rightarrow> Inl (TypeError ''items.filter is not a function'')))"

subsection \<open>Reading an ISO timestamp\<close>

text \<open>
  \<open>Date.parse\<close> on the complete form of the date-time string format,
  \<open>YYYY-MM-DDTHH:mm:ss.sssZ\<close> with a year of four digits or of six digits and a sign:
  the time value, or \<open>None\<close> for \<open>NaN\<close> when a field is out of range. Strings of
  other shapes are \<open>None\<close> here; this is the form \<open>toISOString\<close> writes.
\<close>

definition is_digit :: "char \<Rightarrow> bool" where
  "is_digit c \<longleftrightarrow> c \<in> set ''0123456789''"

definition digit_value :: "char \<Rightarrow> nat" where
  "digit_value c = of_char c - 48"

fun digits_value :: "nat \<Rightarrow> string \<Rightarrow> nat option" where
  "digits_value a [] = Some a"
| "digits_value a (c # cs) =
     (if is_digit c then digits_value (10 * a + digit_value c) cs else None)"

definition take_digits :: "nat \<Rightarrow> string \<Rightarrow> (int \<times> string) option" where
  "take_digits n s =
     (if length s < n then None
      else map_option (\<lambda>v. (int v, drop n s)) (digits_value 0 (take n s)))"

definition expect :: "char \<Rightarrow> string \<Rightarrow> string option" where
  "expect c s = (case s of [] \<Rightarrow> None | x # xs \<Rightarrow> if x = c then Some xs else None)"

definition parse_year :: "string \<Rightarrow> (int \<times> string) option" where
  "parse_year s =
     (case s of
        [] \<Rightarrow> None
      | c # cs \<Rightarrow>
          if c = CHR ''+'' then take_digits 6 cs
          else if c = CHR ''-'' then
            (case take_digits 6 cs of
               None \<Rightarrow> None
             | Some (v, r) \<Rightarrow> if v = 0 then None else Some (- v, r))
          else take_digits 4 s)"

definition Date_parse :: "string \<Rightarrow> int option" where
  "Date_parse s =
     do {
       (y, s1) \<leftarrow> parse_year s;
       s2 \<leftarrow> expect (CHR ''-'') s1;
       (mo, s3) \<leftarrow> take_digits 2 s2;
       s4 \<leftarrow> expect (CHR ''-'') s3;
       (d, s5) \<leftarrow> take_digits 2 s4;
       s6 \<leftarrow> expect (CHR ''T'') s5;
       (h, s7) \<leftarrow> take_digits 2 s6;
       s8 \<leftarrow> expect (CHR '':'') s7;
       (mi, s9) \<leftarrow> take_digits 2 s8;
       s10 \<leftarrow> expect (CHR '':'') s9;
       (sec, s11) \<leftarrow> take_digits 2 s10;
       s12 \<leftarrow> expect (CHR ''.'') s11;
       (ms, s13) \<leftarrow> take_digits 3 s12;
       s14 \<leftarrow> expect (CHR ''Z'') s13;
       if s14 \<noteq> [] \<or> mo < 1 \<or> 12 < mo \<or> d < 1 \<or> DaysInMonth y (mo - 1) < d
          \<or> 23 < h \<or> 59 < mi \<or> 59 < sec
       then None
       else TimeClip (MakeDate (MakeDay y (mo - 1) d) (MakeTime h mi sec ms))
     }"

subsection \<open>Chart utilities: the chart object\<close>

text \<open>
  What \<open>createWaterfallChart\<close> hands to the charting library: the canvas, the labels
  and the segments. The global \<open>currentChart\<close> is an argument; the function returns
  its new value, the chart it created, after the one before was destroyed.
  \<open>document.getElementById(canvasId)\<close> is \<open>null\<close> when the page has no canvas of that
  id, and \<open>getContext\<close> on it throws.
\<close>

record 'a chart =
  chart_canvas :: string
  chart_labels :: "string list"
  chart_data :: "'a segment list"

definition createWaterfallChart ::
  "string set \<Rightarrow> ('a::{plus,zero,ord}) chart option \<Rightarrow> string \<Rightarrow> 'a RateDecomposition
   \<Rightarrow> js_error + 'a chart" where
  "createWaterfallChart canvases currentChart canvasId data =
     (if canvasId \<notin> canvases then Inl (TypeError ''canvas is null'')
      else Inr \<lparr>chart_canvas = canvasId, chart_labels = labels, chart_data = chartData_of data\<rparr>)"

text \<open>
  The click handler of the chart: a click on a driver bar (index 1 to 8) sets
  \<open>window.location.href\<close> to the drill-down of that driver; a click on the start or
  the end bar, or on no bar, does nothing.
\<close>

definition driverMap :: "nat \<rightharpoonup> string" where
  "driverMap =
     [1 \<mapsto> ''payer_mix'', 2 \<mapsto> ''allowed_rates'', 3 \<mapsto> ''units_per_visit'', 4 \<mapsto> ''cpt_mix'',
      5 \<mapsto> ''copay_leakage'', 6 \<mapsto> ''writeoffs_denials'', 7 \<mapsto> ''operational_leakage'',
      8 \<mapsto> ''documentation_issues'']"

definition onClick :: "nat list \<Rightarrow> string option" where
  "onClick elements =
     (if length elements > 0 then
        (let index = elements ! 0
         in if index > 0 \<and> index < length labels - 1 then
              (case driverMap index of
                 Some driver \<Rightarrow> Some (''/drill-down/'' @ driver)
               | None \<Rightarrow> None)
            else None)
      else None)"

section \<open>Properties\<close>

subsection \<open>The waterfall loop\<close>

lemma waterfall_loop_unfold:
  "waterfall_loop vals i c acc =
     (foldl (+) c (take (length vals - 1 - i) (drop i vals)),
      acc @ driver_segments i c (take (length vals - 1 - i) (drop i vals)))"
proof (induction vals i c acc rule: waterfall_loop.induct)
  case (1 vals i cumulative chartData)
  show ?case
  proof (cases "i < length vals - 1")
    case True
    then have len: "length vals - 1 - i = Suc (length vals - 1 - (i + 1))"
      by simp
    from True have dr: "drop i vals = vals ! i # drop (i + 1) vals"
      by (simp add: Cons_nth_drop_Suc)
    have step: "take (length vals - 1 - i) (drop i vals)
                = vals ! i # take (length vals - 1 - (i + 1)) (drop (i + 1) vals)"
      by (subst len, subst dr) simp
    note IH = "1.IH"[OF True refl refl]
    have "waterfall_loop vals i cumulative chartData =
          waterfall_loop vals (i + 1) (cumulative + vals ! i)
              (chartData @
                 [\<lparr>seg_x = i,
                   seg_y = (cumulative, cumulative + vals ! i),
                   seg_backgroundColor = (if vals ! i \<ge> 0 then ''#28a745'' else ''#dc3545'')\<rparr>])"
      using True by (subst waterfall_loop.simps) (simp add: Let_def del: waterfall_loop.simps)
    also note IH
    finally show ?thesis
      unfolding step by simp
  next
    case False
    then show ?thesis
      by (subst waterfall_loop.simps) simp
  qed
qed


lemma driver_values_eq:
  "driver_values data =
     [payer_mix (drivers data), allowed_rates (drivers data), units_per_visit (drivers data),
      cpt_mix (drivers data), copay_leakage (drivers data), writeoffs_denials (drivers data),
      operational_leakage (drivers data), documentation_issues (drivers data)]"
  by (simp add: driver_values_def values_of_def)

lemma loop_range: "take (length (values_of data) - 1 - 1) (drop 1 (values_of data)) = driver_values data"
  by (simp add: driver_values_def values_of_def)

lemma waterfall_eq:
  "waterfall data =
     (foldl (+) (start_net_rate data) (driver_values data),
      \<lparr>seg_x = 0, seg_y = (0, start_net_rate data), seg_backgroundColor = ''#007bff''\<rparr>
      # driver_segments 1 (start_net_rate data) (driver_values data)
      @ [\<lparr>seg_x = 9, seg_y = (0, end_net_rate data), seg_backgroundColor = ''#007bff''\<rparr>])"
  unfolding waterfall_def Let_def waterfall_loop_unfold loop_range
  by (simp add: labels_def)

lemma length_values_of: "length (values_of data) = 10"
  by (simp add: values_of_def)

lemma length_driver_values: "length (driver_values data) = 8"
  by (simp add: driver_values_eq)

lemma nth_driver_values: "k < 8 \<Longrightarrow> driver_values data ! k = values_of data ! Suc k"
  by (simp add: driver_values_def length_values_of)

lemma length_driver_segments: "length (driver_segments i c vs) = length vs"
  by (induction vs arbitrary: i c) simp_all

lemma nth_driver_segments:
  "k < length vs \<Longrightarrow>
   driver_segments i c vs ! k =
     \<lparr>seg_x = i + k,
      seg_y = (foldl (+) c (take k vs), foldl (+) c (take k vs) + vs ! k),
      seg_backgroundColor = (if vs ! k \<ge> 0 then ''#28a745'' else ''#dc3545'')\<rparr>"
proof (induction vs arbitrary: i c k)
  case Nil
  then show ?case by simp
next
  case (Cons v vs)
  show ?case
  proof (cases k)
    case 0
    then show ?thesis by simp
  next
    case (Suc j)
    with Cons.prems have "j < length vs" by simp
    from Cons.IH[OF this, of "Suc i" "c + v"] Suc show ?thesis by simp
  qed
qed

lemma chartData_length: "length (chartData_of data) = 10"
  by (simp add: chartData_of_def waterfall_eq length_driver_segments driver_values_eq)

lemma chartData_driver:
  assumes "1 \<le> i" and "i \<le> 8"
  shows "chartData_of data ! i =
     \<lparr>seg_x = i,
      seg_y = (foldl (+) (start_net_rate data) (take (i - 1) (driver_values data)),
               foldl (+) (start_net_rate data) (take (i - 1) (driver_values data))
                 + values_of data ! i),
      seg_backgroundColor = (if values_of data ! i \<ge> 0 then ''#28a745'' else ''#dc3545'')\<rparr>"
proof -
  from assms obtain k where k: "i = Suc k" "k < 8"
    by (cases i) auto
  have len: "length (driver_values data) = 8"
    by (simp add: driver_values_eq)
  have v: "driver_values data ! k = values_of data ! i"
    using k by (simp add: nth_driver_values)
  have "chartData_of data ! i = driver_segments 1 (start_net_rate data) (driver_values data) ! k"
    using k by (simp add: chartData_of_def waterfall_eq nth_append length_driver_segments len)
  also have "\<dots> = \<lparr>seg_x = 1 + k,
      seg_y = (foldl (+) (start_net_rate data) (take k (driver_values data)),
               foldl (+) (start_net_rate data) (take k (driver_values data))
                 + driver_values data ! k),
      seg_backgroundColor = (if driver_values data ! k \<ge> 0 then ''#28a745'' else ''#dc3545'')\<rparr>"
    using k len by (intro nth_driver_segments) simp
  finally show ?thesis
    using k v by simp
qed


subsection \<open>The cumulative after the last driver\<close>

lemma waterfall_cumulative:
  fixes data :: "('a::{plus,zero,ord}) RateDecomposition"
  shows "fst (waterfall data) = foldl (+) (start_net_rate data) (driver_values data)"
    and "snd (seg_y (chartData_of data ! 8))
         = foldl (+) (start_net_rate data) (driver_values data)"
proof -
  have "take 7 (driver_values data) @ [values_of data ! 8] = driver_values data"
    by (simp add: driver_values_eq values_of_def)
  then have "foldl (+) (start_net_rate data) (take 7 (driver_values data)) + values_of data ! 8
             = foldl (+) (start_net_rate data) (driver_values data)"
    by (metis foldl_Cons foldl_Nil foldl_append)
  then show "snd (seg_y (chartData_of data ! 8))
         = foldl (+) (start_net_rate data) (driver_values data)"
    by (simp add: chartData_driver)
  show "fst (waterfall data) = foldl (+) (start_net_rate data) (driver_values data)"
    by (simp add: waterfall_eq)
qed

text \<open>
  In exact arithmetic the sum the loop accumulates is \<open>start_net_rate\<close> plus the sum
  of the drivers, whatever the order of the sum.
\<close>

lemma foldl_plus_sum_list:
  fixes s :: "'a::comm_monoid_add"
  shows "foldl (+) s xs = s + sum_list xs"
  by (induction xs arbitrary: s) (simp_all add: add.assoc)

lemma bit_length_0: "bit_length 0 = 0"
  by (subst bit_length.simps) simp

lemma bit_length_pos: "0 < n \<Longrightarrow> bit_length n = Suc (bit_length (n div 2))"
  by (subst bit_length.simps) simp

lemma bit_length_values:
  "bit_length (Suc 0) = 1" "bit_length 2 = 2"
  "bit_length 10000000000000000 = 54" "bit_length 10000000000000001 = 54"
  "bit_length 10000000000000002 = 54"
  by (simp_all add: bit_length_0 bit_length_pos)

lemma round_values:
  "round_double 0 = 0" "round_double 1 = 1" "round_double 2 = 2"
  "round_double 10000000000000000 = 10000000000000000"
  "round_double 10000000000000001 = 10000000000000000"
  "round_double 10000000000000002 = 10000000000000002"
  by (simp_all add: round_double_def bit_length_0 bit_length_values Let_def)



lemma rounding_values:
  "values_of rounding_decomposition
   = [Dbl 10000000000000000, Dbl 1, Dbl 1, Dbl 0, Dbl 0, Dbl 0, Dbl 0, Dbl 0, Dbl 0,
      Dbl 10000000000000002]"
  by (simp add: values_of_def rounding_decomposition_def)

lemma Dbl_plus: "Dbl a + Dbl b = Dbl (round_double (a + b))"
  by (simp add: plus_integral_double_def)

text \<open>
  With doubles the claim fails: \<open>10\<^sup>1\<^sup>6 + (1 + 1)\<close> is the end rate \<open>10\<^sup>1\<^sup>6 + 2\<close>, but
  the loop adds 1 twice to \<open>10\<^sup>1\<^sup>6\<close>, each sum rounds back to \<open>10\<^sup>1\<^sup>6\<close>, and the
  cumulative after the last driver is \<open>10\<^sup>1\<^sup>6\<close>.
\<close>

theorem waterfall_rounding_counterexample:
  "start_net_rate rounding_decomposition + foldl (+) 0 (driver_values rounding_decomposition)
     = end_net_rate rounding_decomposition
   \<and> fst (waterfall rounding_decomposition) = Dbl 10000000000000000
   \<and> snd (seg_y (chartData_of rounding_decomposition ! 8)) = Dbl 10000000000000000
   \<and> fst (waterfall rounding_decomposition) \<noteq> end_net_rate rounding_decomposition
   \<and> snd (seg_y (chartData_of rounding_decomposition ! 8)) \<noteq> end_net_rate rounding_decomposition
   \<and> list_all (\<lambda>v. case v of Dbl n \<Rightarrow> round_double n = n) (values_of rounding_decomposition)"
proof -
  have d: "driver_values rounding_decomposition
           = [Dbl 1, Dbl 1, Dbl 0, Dbl 0, Dbl 0, Dbl 0, Dbl 0, Dbl 0]"
    by (simp add: driver_values_def rounding_values)
  have s: "start_net_rate rounding_decomposition = Dbl 10000000000000000"
    "end_net_rate rounding_decomposition = Dbl 10000000000000002"
    by (simp_all add: rounding_decomposition_def)
  have seg: "chartData_of rounding_decomposition ! 8
        = \<lparr>seg_x = 8,
           seg_y = (foldl (+) (start_net_rate rounding_decomposition)
                      (take (8 - 1) (driver_values rounding_decomposition)),
                    foldl (+) (start_net_rate rounding_decomposition)
                      (take (8 - 1) (driver_values rounding_decomposition))
                    + values_of rounding_decomposition ! 8),
           seg_backgroundColor =
             (if values_of rounding_decomposition ! 8 \<ge> 0 then ''#28a745'' else ''#dc3545'')\<rparr>"
    by (rule chartData_driver) simp_all
  show ?thesis
    unfolding seg
    by (simp add: waterfall_eq d s rounding_values Dbl_plus zero_integral_double_def round_values)
qed

text \<open>
  Claim C1, amended. The running cumulative after the last driver, which is the upper
  bound of the segment at index 8, equals \<open>end_net_rate\<close> whenever the driver values
  added to \<open>start_net_rate\<close> one after another, in the order of the loop, give
  \<open>end_net_rate\<close>; this holds for every addition, rounding or not. In exact
  arithmetic, where addition is associative and commutative, it equals \<open>end_net_rate\<close>
  whenever \<open>start_net_rate\<close> plus the sum of the eight drivers equals \<open>end_net_rate\<close>.
\<close>

theorem waterfall_last_cumulative:
  fixes data :: "('a::{plus,zero,ord}) RateDecomposition"
    and exact :: "('b::{comm_monoid_add,ord}) RateDecomposition"
  shows "(foldl (+) (start_net_rate data) (driver_values data) = end_net_rate data \<longrightarrow>
            fst (waterfall data) = end_net_rate data
          \<and> snd (seg_y (chartData_of data ! 8)) = end_net_rate data)
       \<and> (start_net_rate exact + sum_list (driver_values exact) = end_net_rate exact \<longrightarrow>
            fst (waterfall exact) = end_net_rate exact
          \<and> snd (seg_y (chartData_of exact ! 8)) = end_net_rate exact)"
  by (simp add: waterfall_cumulative foldl_plus_sum_list)

theorem waterfall_last_cumulative_witness:
  "foldl (+) (start_net_rate sample_decomposition) (driver_values sample_decomposition)
     = end_net_rate sample_decomposition
   \<and> start_net_rate sample_decomposition + sum_list (driver_values sample_decomposition)
     = end_net_rate sample_decomposition
   \<and> fst (waterfall sample_decomposition) = 963
   \<and> snd (seg_y (chartData_of sample_decomposition ! 8)) = 963"
proof -
  have h: "foldl (+) (start_net_rate sample_decomposition) (driver_values sample_decomposition)
     = end_net_rate sample_decomposition"
    "start_net_rate sample_decomposition + sum_list (driver_values sample_decomposition)
     = end_net_rate sample_decomposition"
    by (simp_all add: sample_decomposition_def driver_values_eq)
  have e: "end_net_rate sample_decomposition = 963"
    by (simp add: sample_decomposition_def)
  from waterfall_last_cumulative[of sample_decomposition sample_decomposition] h
  show ?thesis
    by (simp add: e)
qed

text \<open>
  Claim C3. For every driver position \<open>i\<close> from 1 to 8, the segment at index \<open>i\<close>
  starts at the old cumulative (the sum accumulated over the drivers before \<open>i\<close>,
  which is the upper bound of the segment before it), ends at the old cumulative plus
  the driver value, and has the increase colour \<open>#28a745\<close> when the driver value is
  \<open>\<ge> 0\<close> (zero included) and the decrease colour \<open>#dc3545\<close> when it is negative.
\<close>

theorem waterfall_driver_segment:
  fixes data :: "('a::{plus,zero,preorder}) RateDecomposition"
  assumes "1 \<le> i" and "i \<le> 8"
  shows "seg_x (chartData_of data ! i) = i
       \<and> fst (seg_y (chartData_of data ! i))
           = foldl (+) (start_net_rate data) (take (i - 1) (driver_values data))
       \<and> fst (seg_y (chartData_of data ! i)) = snd (seg_y (chartData_of data ! (i - 1)))
       \<and> snd (seg_y (chartData_of data ! i))
           = fst (seg_y (chartData_of data ! i)) + values_of data ! i
       \<and> (values_of data ! i \<ge> 0 \<longrightarrow> seg_backgroundColor (chartData_of data ! i) = ''#28a745'')
       \<and> (values_of data ! i < 0 \<longrightarrow> seg_backgroundColor (chartData_of data ! i) = ''#dc3545'')"
proof -
  have prev: "snd (seg_y (chartData_of data ! (i - 1)))
              = foldl (+) (start_net_rate data) (take (i - 1) (driver_values data))"
  proof (cases "i = 1")
    case True
    then show ?thesis
      by (simp add: chartData_of_def waterfall_eq)
  next
    case False
    with assms obtain k where k: "i = Suc (Suc k)" "k < 7"
      by (cases i; cases "i - 1") auto
    then have r: "1 \<le> Suc k" "Suc k \<le> 8"
      by simp_all
    have "take (Suc k) (driver_values data) = take k (driver_values data) @ [values_of data ! Suc k]"
      using k by (simp add: take_Suc_conv_app_nth length_driver_values nth_driver_values)
    then show ?thesis
      using k by (simp add: chartData_driver[OF r])
  qed
  have neg: "values_of data ! i < 0 \<Longrightarrow> \<not> values_of data ! i \<ge> 0"
    by (simp add: less_le_not_le)
  from prev neg show ?thesis
    by (auto simp add: chartData_driver[OF assms])
qed

theorem waterfall_driver_segment_witness:
  "(1::nat) \<le> 1 \<and> (1::nat) \<le> 8
   \<and> values_of sample_decomposition ! 1 < 0
   \<and> seg_y (chartData_of sample_decomposition ! 1) = (1000, 950)
   \<and> seg_backgroundColor (chartData_of sample_decomposition ! 1) = ''#dc3545''
   \<and> (3::nat) \<le> 8 \<and> values_of sample_decomposition ! 3 = 0
   \<and> seg_y (chartData_of sample_decomposition ! 3) = (980, 980)
   \<and> seg_backgroundColor (chartData_of sample_decomposition ! 3) = ''#28a745''"
proof -
  have v: "values_of sample_decomposition ! Suc 0 = - 50" "values_of sample_decomposition ! 3 = 0"
    by (simp_all add: values_of_def sample_decomposition_def)
  have d: "driver_values sample_decomposition = [- 50, 30, 0, 12, - 7, - 20, - 5, 3]"
    by (simp add: driver_values_eq sample_decomposition_def)
  have s: "start_net_rate sample_decomposition = 1000"
    by (simp add: sample_decomposition_def)
  have one: "(1::nat) \<le> 1" "(1::nat) \<le> 8" and three: "(1::nat) \<le> 3" "(3::nat) \<le> 8"
    by simp_all
  from waterfall_driver_segment[OF one, of sample_decomposition]
       waterfall_driver_segment[OF three, of sample_decomposition]
  show ?thesis
    by (simp add: v d s prod_eq_iff)
qed

text \<open>
  Claim C4. The first segment spans \<open>[0, start_net_rate]\<close>; the last one, the tenth,
  spans \<open>[0, end_net_rate]\<close>: its lower bound is zero, not the running cumulative.
  Both have the anchor colour \<open>#007bff\<close>, which is neither the increase nor the
  decrease colour.
\<close>

theorem waterfall_anchor_segments:
  "chartData_of data ! 0
     = \<lparr>seg_x = 0, seg_y = (0, start_net_rate data), seg_backgroundColor = ''#007bff''\<rparr>
   \<and> length (chartData_of data) = 10
   \<and> last (chartData_of data)
     = \<lparr>seg_x = 9, seg_y = (0, end_net_rate data), seg_backgroundColor = ''#007bff''\<rparr>
   \<and> chartData_of data ! 9 = last (chartData_of data)
   \<and> ''#007bff'' \<noteq> ''#28a745'' \<and> ''#007bff'' \<noteq> ''#dc3545''"
  by (simp add: chartData_of_def waterfall_eq driver_values_eq)

subsection \<open>Number printing\<close>

lemma nat_digits_lt10: "n < 10 \<Longrightarrow> nat_digits n = [digit_char n]"
  by (subst nat_digits.simps) simp

lemma nat_digits_ge10: "\<not> n < 10 \<Longrightarrow> nat_digits n = nat_digits (n div 10) @ [digit_char (n mod 10)]"
  by (subst nat_digits.simps) simp

subsection \<open>CSV export\<close>

lemma cell_uniform:
  assumes "h \<in> fst ` set r"
  shows "element_string ns
           (let v = map_of r h
            in case v of Some (JStr s) \<Rightarrow> Some (JStr ([dquote] @ s @ [dquote])) | _ \<Rightarrow> v)
         = csv_field ns (the (map_of r h))"
proof -
  from assms have "map_of r h \<noteq> None"
    by (simp add: map_of_eq_None_iff)
  then obtain v where v: "map_of r h = Some v"
    by blast
  show ?thesis
    by (cases v) (simp_all add: v element_string_def csv_field_def raw_value_def)
qed




lemma row_uniform:
  assumes "set (map fst r) = set hs"
  shows "Array_join ns '',''
               (map (\<lambda>header.
                       (let v = map_of r header
                        in case v of Some (JStr s) \<Rightarrow> Some (JStr ([dquote] @ s @ [dquote])) | _ \<Rightarrow> v))
                  hs)
             = join '','' (map (\<lambda>h. csv_field ns (the (map_of r h))) hs)"
proof -
  from assms have k: "fst ` set r = set hs"
    by simp
  have "map (\<lambda>header. element_string ns
                       (let v = map_of r header
                        in case v of Some (JStr s) \<Rightarrow> Some (JStr ([dquote] @ s @ [dquote])) | _ \<Rightarrow> v))
                  hs
             = map (\<lambda>h. csv_field ns (the (map_of r h))) hs"
  proof (rule map_cong[OF refl])
    fix h assume "h \<in> set hs"
    with k have "h \<in> fst ` set r"
      by simp
    then show "element_string ns
                       (let v = map_of r h
                        in case v of Some (JStr s) \<Rightarrow> Some (JStr ([dquote] @ s @ [dquote])) | _ \<Rightarrow> v)
               = csv_field ns (the (map_of r h))"
      by (rule cell_uniform)
  qed
  then show ?thesis
    by (simp only: Array_join_def map_map comp_def)
qed

text \<open>
  Claim C9. \<open>convertToCSV\<close> equals the reference encoding on every non-empty sequence
  of uniform records: the first record's keys joined by commas, then one line per
  record with each field quoted exactly when it is a string and raw otherwise, nothing
  escaped, lines joined by a newline. The empty sequence gives the empty string, and
  \<open>exportToCSV([{a:1,b:"x"}], "f.csv")\<close> downloads the content \<open>a,b\<newline>1,"x"\<close>.
\<close>

theorem convertToCSV_reference:
  "(rows \<noteq> [] \<and> uniform rows \<longrightarrow> convertToCSV ns (Some rows) = csv_reference ns rows)
   \<and> convertToCSV ns (Some []) = []
   \<and> download_content
        (exportToCSV Number_toString (Some [[(''a'', JNum 1), (''b'', JStr ''x'')]]) ''f.csv'')
      = ''a,b'' @ [CHR 0x0A] @ ''1,'' @ [dquote] @ ''x'' @ [dquote]"
proof (intro conjI impI)
  assume a: "rows \<noteq> [] \<and> uniform rows"
  then have hd: "rows ! 0 = hd rows" and len: "length rows \<noteq> 0"
    by (simp_all add: hd_conv_nth)
  from a have u: "\<And>r. r \<in> set rows \<Longrightarrow> set (map fst r) = set (map fst (hd rows))"
    unfolding uniform_def list_all_iff by blast
  have rows_eq:
    "map (\<lambda>row. Array_join ns '',''
               (map (\<lambda>header.
                       (let v = map_of row header
                        in case v of Some (JStr s) \<Rightarrow> Some (JStr ([dquote] @ s @ [dquote])) | _ \<Rightarrow> v))
                  (map fst (hd rows)))) rows
     = map (\<lambda>r. join '','' (map (\<lambda>h. csv_field ns (the (map_of r h))) (map fst (hd rows)))) rows"
    by (rule map_cong[OF refl]) (rule row_uniform[OF u])
  have "convertToCSV ns (Some rows)
        = join [CHR 0x0A]
            (join '','' (map fst (hd rows))
             # map (\<lambda>row. Array_join ns '',''
               (map (\<lambda>header.
                       (let v = map_of row header
                        in case v of Some (JStr s) \<Rightarrow> Some (JStr ([dquote] @ s @ [dquote])) | _ \<Rightarrow> v))
                  (map fst (hd rows)))) rows)"
    unfolding convertToCSV_def Object_keys_def
    by (simp only: option.case len if_False Let_def hd)
  also have "\<dots> = csv_reference ns rows"
    unfolding csv_reference_def rows_eq using a by simp
  finally show "convertToCSV ns (Some rows) = csv_reference ns rows" .
next
  show "convertToCSV ns (Some []) = []"
    by (simp add: convertToCSV_def)
next
  show "download_content
        (exportToCSV Number_toString (Some [[(''a'', JNum 1), (''b'', JStr ''x'')]]) ''f.csv'')
      = ''a,b'' @ [CHR 0x0A] @ ''1,'' @ [dquote] @ ''x'' @ [dquote]"
    by (simp add: exportToCSV_def convertToCSV_def Object_keys_def Array_join_def
        element_string_def Number_toString_def nat_digits_lt10 digit_char_def)
qed

theorem convertToCSV_reference_witness:
  "[[(''a'', JNum (1::int)), (''b'', JStr ''x'')]] \<noteq> []
   \<and> uniform [[(''a'', JNum (1::int)), (''b'', JStr ''x'')]]
   \<and> csv_reference Number_toString [[(''a'', JNum 1), (''b'', JStr ''x'')]]
       = ''a,b'' @ [CHR 0x0A] @ ''1,'' @ [dquote] @ ''x'' @ [dquote]
   \<and> convertToCSV Number_toString (Some [[(''a'', JNum 1), (''b'', JStr ''x'')]])
       = ''a,b'' @ [CHR 0x0A] @ ''1,'' @ [dquote] @ ''x'' @ [dquote]"
proof -
  have u: "uniform [[(''a'', JNum (1::int)), (''b'', JStr ''x'')]]"
    by (simp add: uniform_def)
  have r: "csv_reference Number_toString [[(''a'', JNum 1), (''b'', JStr ''x'')]]
       = ''a,b'' @ [CHR 0x0A] @ ''1,'' @ [dquote] @ ''x'' @ [dquote]"
    by (simp add: csv_reference_def csv_field_def raw_value_def Number_toString_def
        nat_digits_lt10 digit_char_def)
  from convertToCSV_reference[of "[[(''a'', JNum (1::int)), (''b'', JStr ''x'')]]" Number_toString] u r
  show ?thesis
    by simp
qed

subsection \<open>Loading state\<close>

lemma spinner_children_loading:
  "spinner_children (setLoadingState e True)
   = Element ''div'' [''spinner-border'', ''spinner-border-sm'', ''me-2''] [(''role'', ''status'')] [] []
     # spinner_children e"
  by (cases e)
     (simp add: setLoadingState_def spinner_children_def classList_add_def createElement_def
        set_className_def setAttribute_def insertBefore_firstChild_def Let_def)

lemma classList_loading:
  "classList (setLoadingState e True)
   = (if ''loading'' \<in> set (classList e) then classList e else classList e @ [''loading''])"
  by (cases e)
     (simp add: setLoadingState_def classList_add_def createElement_def
        set_className_def setAttribute_def insertBefore_firstChild_def Let_def)

text \<open>
  A button that is put in the loading state twice has two spinner children, not one.
\<close>

theorem setLoadingState_twice_counterexample:
  "length (spinner_children (setLoadingState (setLoadingState sample_button True) True)) = 2
   \<and> length (spinner_children (setLoadingState (setLoadingState sample_button True) True)) \<noteq> 1"
  by (simp add: spinner_children_loading) (simp add: spinner_children_def sample_button_def)

text \<open>
  Claim C2, amended. \<open>setLoadingState(element, true)\<close> is idempotent on the class list
  only: every call prepends a new spinner, so two calls in a row leave two spinner
  children more than the element had, the new ones first. The \<open>loading\<close> class is
  present once.
\<close>

theorem setLoadingState_twice:
  "length (spinner_children (setLoadingState (setLoadingState e True) True))
     = length (spinner_children e) + 2
   \<and> take 2 (children (setLoadingState (setLoadingState e True) True))
     = take 2 (spinner_children (setLoadingState (setLoadingState e True) True))
   \<and> classList (setLoadingState (setLoadingState e True) True) = classList (setLoadingState e True)
   \<and> ''loading'' \<in> set (classList (setLoadingState e True))"
proof -
  have c: "children (setLoadingState x True)
           = Element ''div'' [''spinner-border'', ''spinner-border-sm'', ''me-2''] [(''role'', ''status'')] [] []
             # children x" for x
    by (cases x)
       (simp add: setLoadingState_def classList_add_def createElement_def
          set_className_def setAttribute_def insertBefore_firstChild_def Let_def)
  show ?thesis
    by (auto simp add: spinner_children_loading classList_loading c)
qed


subsection \<open>The API helper\<close>

text \<open>
  On a page with no \<open>.container\<close> element a failed request is not re-raised and no
  alert is shown: \<open>showError\<close> throws inside the \<open>catch\<close> block, and its
  \<open>TypeError\<close> replaces the HTTP error.
\<close>

theorem apiRequest_no_container_counterexample:
  "snd (apiRequest failing_fetch ''/api/rates'' bare_page) = Inl (TypeError ''container is null'')
   \<and> snd (apiRequest failing_fetch ''/api/rates'' bare_page) \<noteq> Inl (Error ''HTTP error! status: 500'')
   \<and> container (fst (apiRequest failing_fetch ''/api/rates'' bare_page)) = None"
  by (simp add: apiRequest_def failing_fetch_def bare_page_def showError_def Let_def)

text \<open>
  Claim C7, amended. On a page that has a \<open>.container\<close> element: a response with a
  non-success status makes \<open>apiRequest\<close> raise \<open>Error\<close> with the message
  \<open>HTTP error! status: \<close> followed by the status code; on each failure (transport,
  HTTP status, body that is not JSON) the alert with the fixed message is inserted as
  the first child of the container, the failure is logged, and the same failure is
  raised to the caller; on a success status with a JSON body the result is the parsed
  body and the page is unchanged.
\<close>

theorem apiRequest_outcomes:
  assumes "container p = Some c"
  shows "(fetch url = Rejected e \<longrightarrow>
            snd (apiRequest fetch url p) = Inl e
          \<and> container (fst (apiRequest fetch url p))
            = Some (insertBefore_firstChild (error_alert ''Failed to load data. Please try again.'') c)
          \<and> console (fst (apiRequest fetch url p)) = console p @ [(''API request failed:'', e)])
       \<and> (fetch url = Responded r \<and> \<not> ok r \<longrightarrow>
            snd (apiRequest fetch url p)
              = Inl (Error (''HTTP error! status: '' @ Number_toString (status r)))
          \<and> container (fst (apiRequest fetch url p))
            = Some (insertBefore_firstChild (error_alert ''Failed to load data. Please try again.'') c)
          \<and> console (fst (apiRequest fetch url p))
            = console p @ [(''API request failed:'',
                            Error (''HTTP error! status: '' @ Number_toString (status r)))])
       \<and> (fetch url = Responded r \<and> ok r \<and> json r = Inl e \<longrightarrow>
            snd (apiRequest fetch url p) = Inl e
          \<and> container (fst (apiRequest fetch url p))
            = Some (insertBefore_firstChild (error_alert ''Failed to load data. Please try again.'') c)
          \<and> console (fst (apiRequest fetch url p)) = console p @ [(''API request failed:'', e)])
       \<and> (fetch url = Responded r \<and> ok r \<and> json r = Inr body \<longrightarrow>
            apiRequest fetch url p = (p, Inr body))"
  using assms by (simp add: apiRequest_def showError_def Let_def)

theorem apiRequest_outcomes_witness:
  "container sample_page = Some (Element ''div'' [''container''] [] [] [])
   \<and> failing_fetch ''/api/rates'' = Responded \<lparr>ok = False, status = 500, json = Inl (SyntaxError ''no body'')\<rparr>
   \<and> snd (apiRequest failing_fetch ''/api/rates'' sample_page) = Inl (Error ''HTTP error! status: 500'')
   \<and> container (fst (apiRequest failing_fetch ''/api/rates'' sample_page))
     = Some (Element ''div'' [''container''] [] []
               [error_alert ''Failed to load data. Please try again.''])"
proof -
  have c: "container sample_page = Some (Element ''div'' [''container''] [] [] [])"
    by (simp add: sample_page_def)
  have n: "Number_toString 500 = ''500''"
    by (simp add: Number_toString_def nat_digits_lt10 nat_digits_ge10 digit_char_def)
  from apiRequest_outcomes[OF c, where fetch = failing_fetch and url = "''/api/rates''"
      and r = "\<lparr>ok = False, status = 500, json = Inl (SyntaxError ''no body'')\<rparr>"]
  show ?thesis
    by (simp add: c n failing_fetch_def insertBefore_firstChild_def)
qed

subsection \<open>The year of a day\<close>


lemma div_bounds:
  fixes a k :: int
  assumes "0 < k"
  shows "k * (a div k) \<le> a" and "a < k * (a div k) + k"
proof -
  have "a = k * (a div k) + a mod k"
    by simp
  moreover have "0 \<le> a mod k" "a mod k < k"
    using assms by simp_all
  ultimately show "k * (a div k) \<le> a" and "a < k * (a div k) + k"
    by linarith+
qed

lemma div_succ:
  fixes a k :: int
  assumes "1 < k"
  shows "(a + 1) div k = a div k + (if (a + 1) mod k = 0 then 1 else 0)"
proof -
  have b: "0 \<le> a mod k" "a mod k < k"
    using assms by simp_all
  have one: "1 div k = 0" "1 mod k = 1"
    using assms by simp_all
  have d: "(a + 1) div k = a div k + (a mod k + 1) div k"
    using div_add1_eq[of a 1 k] by (simp add: one)
  have m: "(a + 1) mod k = (a mod k + 1) mod k"
    by (simp add: mod_simps)
  show ?thesis
  proof (cases "a mod k + 1 = k")
    case True
    then show ?thesis
      using assms by (simp add: d m)
  next
    case False
    with b have "a mod k + 1 < k" "0 \<le> a mod k + 1" "a mod k + 1 \<noteq> 0"
      by linarith+
    then show ?thesis
      by (simp add: d m)
  qed
qed

lemma mod_shift:
  fixes y :: int
  shows "(y - 1969 + 1) mod 4 = 0 \<longleftrightarrow> y mod 4 = 0"
    and "(y - 1901 + 1) mod 100 = 0 \<longleftrightarrow> y mod 100 = 0"
    and "(y - 1601 + 1) mod 400 = 0 \<longleftrightarrow> y mod 400 = 0"
proof -
  have "(y - 1968) mod 4 = (y + 4 * (- 492)) mod 4" by simp
  also have "\<dots> = y mod 4" by (rule mod_mult_self2)
  finally show "(y - 1969 + 1) mod 4 = 0 \<longleftrightarrow> y mod 4 = 0" by simp
  have "(y - 1900) mod 100 = (y + 100 * (- 19)) mod 100" by simp
  also have "\<dots> = y mod 100" by (rule mod_mult_self2)
  finally show "(y - 1901 + 1) mod 100 = 0 \<longleftrightarrow> y mod 100 = 0" by simp
  have "(y - 1600) mod 400 = (y + 400 * (- 4)) mod 400" by simp
  also have "\<dots> = y mod 400" by (rule mod_mult_self2)
  finally show "(y - 1601 + 1) mod 400 = 0 \<longleftrightarrow> y mod 400 = 0" by simp
qed

lemma leap_divisibility:
  fixes y :: int
  shows "y mod 100 = 0 \<Longrightarrow> y mod 4 = 0" and "y mod 400 = 0 \<Longrightarrow> y mod 100 = 0"
proof -
  have "y mod 100 mod 4 = y mod 4" by (rule mod_mod_cancel) simp
  then show "y mod 100 = 0 \<Longrightarrow> y mod 4 = 0" by simp
  have "y mod 400 mod 100 = y mod 100" by (rule mod_mod_cancel) simp
  then show "y mod 400 = 0 \<Longrightarrow> y mod 100 = 0" by simp
qed

lemma DayFromYear_Suc: "DayFromYear (y + 1) = DayFromYear y + DaysInYear y"
proof -
  define A B C where "A = (y - 1969) div 4" and "B = (y - 1901) div 100"
    and "C = (y - 1601) div 400"
  have s4: "(y + 1 - 1969) div 4 = A + (if y mod 4 = 0 then 1 else 0)"
    using div_succ[of 4 "y - 1969"] mod_shift(1)[of y] by (simp add: A_def)
  have s100: "(y + 1 - 1901) div 100 = B + (if y mod 100 = 0 then 1 else 0)"
    using div_succ[of 100 "y - 1901"] mod_shift(2)[of y] by (simp add: B_def)
  have s400: "(y + 1 - 1601) div 400 = C + (if y mod 400 = 0 then 1 else 0)"
    using div_succ[of 400 "y - 1601"] mod_shift(3)[of y] by (simp add: C_def)
  have l: "DayFromYear (y + 1)
           = 365 * (y - 1970) + 365 + (A + (if y mod 4 = 0 then 1 else 0))
             - (B + (if y mod 100 = 0 then 1 else 0)) + (C + (if y mod 400 = 0 then 1 else 0))"
    unfolding DayFromYear_def s4 s100 s400 by simp
  have r: "DayFromYear y = 365 * (y - 1970) + A - B + C"
    by (simp add: DayFromYear_def A_def B_def C_def)
  define p4 p100 p400 where "p4 \<longleftrightarrow> y mod 4 = 0" and "p100 \<longleftrightarrow> y mod 100 = 0"
    and "p400 \<longleftrightarrow> y mod 400 = 0"
  have "p100 \<longrightarrow> p4" "p400 \<longrightarrow> p100"
    using leap_divisibility[of y] by (simp_all add: p4_def p100_def p400_def)
  then consider (a) "\<not> p4" "\<not> p100" "\<not> p400" | (b) "p4" "\<not> p100" "\<not> p400"
    | (c) "p4" "p100" "\<not> p400" | (d) "p4" "p100" "p400"
    by blast
  then show ?thesis
    by cases (simp_all add: l r DaysInYear_def p4_def p100_def p400_def)
qed

lemma DayFromYear_bounds:
  "146097 * y - 287811596 \<le> 400 * DayFromYear y"
  "400 * DayFromYear y \<le> 146097 * y - 287810501"
proof -
  define q4 q100 q400 where "q4 = (y - 1969) div 4" and "q100 = (y - 1901) div 100"
    and "q400 = (y - 1601) div 400"
  have a: "4 * q4 \<le> y - 1969" "y - 1969 < 4 * q4 + 4"
      "100 * q100 \<le> y - 1901" "y - 1901 < 100 * q100 + 100"
      "400 * q400 \<le> y - 1601" "y - 1601 < 400 * q400 + 400"
    using div_bounds[of 4 "y - 1969"] div_bounds[of 100 "y - 1901"] div_bounds[of 400 "y - 1601"]
    by (simp_all add: q4_def q100_def q400_def)
  have d: "400 * DayFromYear y = 146000 * y - 287620000 + 400 * q4 - 400 * q100 + 400 * q400"
    by (simp add: DayFromYear_def q4_def q100_def q400_def)
  show "146097 * y - 287811596 \<le> 400 * DayFromYear y"
    unfolding d using a by linarith
  show "400 * DayFromYear y \<le> 146097 * y - 287810501"
    unfolding d using a by linarith
qed

lemma YearFromDay_bracket:
  "DayFromYear (YearFromDay d) \<le> d" "d < DayFromYear (YearFromDay d + 1)"
proof -
  define q where "q = (400 * d) div 146097"
  have qb: "146097 * q \<le> 400 * d" "400 * d < 146097 * q + 146097"
    using div_bounds[of 146097 "400 * d"] by (simp_all add: q_def)
  define lo hi where "lo = DayFromYear (1970 + q - 1)" and "hi = DayFromYear (1970 + q + 1 + 1)"
  have "400 * lo \<le> 146097 * q - 145508"
    using DayFromYear_bounds(2)[of "1970 + q - 1"] by (simp add: lo_def algebra_simps)
  with qb have lo: "lo \<le> d"
    by linarith
  have "146097 * q + 291688 \<le> 400 * hi"
    using DayFromYear_bounds(1)[of "1970 + q + 1 + 1"] by (simp add: hi_def algebra_simps)
  with qb have hi: "d < hi"
    by linarith
  show "DayFromYear (YearFromDay d) \<le> d"
    using lo by (simp add: YearFromDay_def Let_def q_def[symmetric] lo_def)
  have e: "1970 + q - 1 + 1 = 1970 + q"
    by simp
  show "d < DayFromYear (YearFromDay d + 1)"
  proof (cases "d < DayFromYear (1970 + q)")
    case True
    then show ?thesis
      by (simp only: YearFromDay_def Let_def q_def[symmetric] if_True e)
  next
    case False
    show ?thesis
    proof (cases "DayFromYear (1970 + q + 1) \<le> d")
      case True
      with False hi show ?thesis
        by (simp only: YearFromDay_def Let_def q_def[symmetric] if_True if_False hi_def)
    next
      case b: False
      then have "d < DayFromYear (1970 + q + 1)"
        by simp
      with False b show ?thesis
        by (simp only: YearFromDay_def Let_def q_def[symmetric] if_False)
    qed
  qed
qed

lemma DayFromYear_mono: "y \<le> z \<Longrightarrow> DayFromYear y \<le> DayFromYear z"
proof (induction "nat (z - y)" arbitrary: z)
  case 0
  then show ?case by simp
next
  case (Suc n)
  then have "n = nat ((z - 1) - y)" "y \<le> z - 1" by linarith+
  from Suc.hyps(1)[OF this] have "DayFromYear y \<le> DayFromYear (z - 1)" .
  moreover have "DayFromYear (z - 1 + 1) = DayFromYear (z - 1) + DaysInYear (z - 1)"
    by (rule DayFromYear_Suc)
  moreover have "0 \<le> DaysInYear (z - 1)"
    by (simp add: DaysInYear_def)
  ultimately show ?case by simp
qed

lemma YearFromDay_unique:
  assumes "DayFromYear y \<le> d" and "d < DayFromYear (y + 1)"
  shows "YearFromDay d = y"
proof (rule ccontr)
  assume ne: "YearFromDay d \<noteq> y"
  have b: "DayFromYear (YearFromDay d) \<le> d" "d < DayFromYear (YearFromDay d + 1)"
    by (rule YearFromDay_bracket(1), rule YearFromDay_bracket(2))
  show False
  proof (cases "YearFromDay d < y")
    case True
    then have "DayFromYear (YearFromDay d + 1) \<le> DayFromYear y"
      by (intro DayFromYear_mono) simp
    with b assms show False by linarith
  next
    case False
    with ne have "DayFromYear (y + 1) \<le> DayFromYear (YearFromDay d)"
      by (intro DayFromYear_mono) simp
    with b assms show False by linarith
  qed
qed



subsection \<open>Calendar fields\<close>

lemma DaysInYear_cases: "DaysInYear y = 365 \<or> DaysInYear y = 366"
  by (simp add: DaysInYear_def)

lemma DayWithinYear_bounds:
  "0 \<le> DayWithinYear t" "DayWithinYear t < DaysInYear (YearFromTime t)"
proof -
  have "DayFromYear (YearFromDay (Day t)) \<le> Day t"
       "Day t < DayFromYear (YearFromDay (Day t) + 1)"
    by (rule YearFromDay_bracket(1), rule YearFromDay_bracket(2))
  then show "0 \<le> DayWithinYear t" "DayWithinYear t < DaysInYear (YearFromTime t)"
    by (simp_all add: DayWithinYear_def YearFromTime_def DayFromYear_Suc)
qed

lemma month_in_year_range: "0 \<le> month_in_year d l" "month_in_year d l \<le> 11"
  by (simp_all add: month_in_year_def)

lemma in_year_inverse:
  assumes "l = 0 \<or> l = 1" and "0 \<le> d" and "d < 365 + l"
  shows "month_start l (month_in_year d l) + date_in_year d l - 1 = d"
    and "1 \<le> date_in_year d l"
    and "date_in_year d l \<le> (if month_in_year d l = 1 then 28 + l
                               else if month_in_year d l \<in> {3, 5, 8, 10} then 30 else 31)"
  using assms by (auto simp add: month_in_year_def date_in_year_def month_start_def Let_def)

lemma in_year_of_start:
  assumes "l = 0 \<or> l = 1" and "0 \<le> m" and "m \<le> 11" and "1 \<le> d"
    and "d \<le> (if m = 1 then 28 + l else if m \<in> {3, 5, 8, 10} then 30 else 31)"
  shows "month_in_year (month_start l m + d - 1) l = m"
    and "date_in_year (month_start l m + d - 1) l = d"
    and "0 \<le> month_start l m + d - 1" and "month_start l m + d - 1 < 365 + l"
proof -
  from assms(2,3) have "m = 0 \<or> m = 1 \<or> m = 2 \<or> m = 3 \<or> m = 4 \<or> m = 5 \<or> m = 6
      \<or> m = 7 \<or> m = 8 \<or> m = 9 \<or> m = 10 \<or> m = 11"
    by presburger
  then consider "m = 0" | "m = 1" | "m = 2" | "m = 3" | "m = 4" | "m = 5" | "m = 6"
    | "m = 7" | "m = 8" | "m = 9" | "m = 10" | "m = 11"
    by blast
  then have "month_in_year (month_start l m + d - 1) l = m
      \<and> date_in_year (month_start l m + d - 1) l = d
      \<and> 0 \<le> month_start l m + d - 1 \<and> month_start l m + d - 1 < 365 + l"
    using assms(1,4,5)
    by cases (auto simp add: month_in_year_def date_in_year_def month_start_def Let_def)
  then show "month_in_year (month_start l m + d - 1) l = m"
    and "date_in_year (month_start l m + d - 1) l = d"
    and "0 \<le> month_start l m + d - 1" and "month_start l m + d - 1 < 365 + l"
    by simp_all
qed


lemma Day_MakeDate:
  assumes "0 \<le> time" and "time < msPerDay"
  shows "Day (MakeDate day time) = day"
proof -
  have "(time + day * 86400000) div 86400000 = day + time div 86400000"
    by (rule div_mult_self1) simp
  moreover have "time div 86400000 = 0"
    using assms by (simp add: msPerDay_def)
  ultimately show ?thesis
    by (simp add: Day_def MakeDate_def msPerDay_def add.commute)
qed

lemma DaysInMonth_leap:
  "DaysInMonth y m
   = (if m = 1 then 28 + (if DaysInYear y = 366 then 1 else 0)
      else if m \<in> {3, 5, 8, 10} then 30 else 31)"
  by (simp add: DaysInMonth_def)

lemma MakeDay_in_year:
  assumes "0 \<le> m" and "m \<le> 11"
  shows "MakeDay y m d
         = DayFromYear y + (month_start (if DaysInYear y = 366 then 1 else 0) m + d - 1)"
proof -
  from assms have "m div 12 = 0" "m mod 12 = m"
    by simp_all
  then show ?thesis
    by (simp add: MakeDay_def Let_def)
qed

lemma fields_of_day:
  assumes "0 \<le> m" and "m \<le> 11" and "1 \<le> d" and "d \<le> DaysInMonth y m"
    and "Day t = MakeDay y m d"
  shows "YearFromTime t = y" and "MonthFromTime t = m" and "DateFromTime t = d"
proof -
  define l :: int where "l = (if DaysInYear y = 366 then 1 else 0)"
  have l: "l = 0 \<or> l = 1" and diy: "DaysInYear y = 365 + l"
    using DaysInYear_cases[of y] by (auto simp add: l_def)
  have dim: "d \<le> (if m = 1 then 28 + l else if m \<in> {3, 5, 8, 10} then 30 else 31)"
    using assms(4) by (simp only: DaysInMonth_leap l_def)
  define w where "w = month_start l m + d - 1"
  note s = in_year_of_start[OF l assms(1,2,3) dim, folded w_def]
  have day: "Day t = DayFromYear y + w"
    using assms(5) by (simp add: MakeDay_in_year[OF assms(1,2)] l_def w_def)
  have "DayFromYear y \<le> Day t" "Day t < DayFromYear (y + 1)"
    using s(3,4) by (simp_all add: day DayFromYear_Suc diy)
  then have "YearFromDay (Day t) = y"
    by (rule YearFromDay_unique)
  then show y: "YearFromTime t = y"
    by (simp add: YearFromTime_def)
  have "DayWithinYear t = w" "InLeapYear t = l"
    by (simp_all add: DayWithinYear_def InLeapYear_def y day l_def)
  then show "MonthFromTime t = m" and "DateFromTime t = d"
    using s(1,2) by (simp_all add: MonthFromTime_def DateFromTime_def)
qed

lemma fields_range:
  "0 \<le> MonthFromTime t" "MonthFromTime t \<le> 11"
  "1 \<le> DateFromTime t" "DateFromTime t \<le> DaysInMonth (YearFromTime t) (MonthFromTime t)"
  "MakeDay (YearFromTime t) (MonthFromTime t) (DateFromTime t) = Day t"
proof -
  define l where "l = InLeapYear t"
  define w where "w = DayWithinYear t"
  have l: "l = 0 \<or> l = 1" and diy: "DaysInYear (YearFromTime t) = 365 + l"
    using DaysInYear_cases[of "YearFromTime t"] by (auto simp add: l_def InLeapYear_def)
  have w: "0 \<le> w" "w < 365 + l"
    using DayWithinYear_bounds[of t] by (simp_all add: w_def diy)
  note i = in_year_inverse[OF l w]
  show m: "0 \<le> MonthFromTime t" "MonthFromTime t \<le> 11"
    by (simp_all add: MonthFromTime_def month_in_year_range)
  show "1 \<le> DateFromTime t"
    using i(2) by (simp add: DateFromTime_def l_def w_def)
  have leap: "(if DaysInYear (YearFromTime t) = 366 then 1 else 0) = l"
    by (simp add: l_def InLeapYear_def)
  show "DateFromTime t \<le> DaysInMonth (YearFromTime t) (MonthFromTime t)"
    using i(3) by (simp only: DaysInMonth_leap leap DateFromTime_def MonthFromTime_def l_def w_def)
  have "MakeDay (YearFromTime t) (MonthFromTime t) (DateFromTime t)
        = DayFromYear (YearFromTime t) + (month_start l (MonthFromTime t) + DateFromTime t - 1)"
    by (simp only: MakeDay_in_year[OF m] leap)
  also have "\<dots> = DayFromYear (YearFromTime t) + w"
    using i(1) by (simp add: MonthFromTime_def DateFromTime_def l_def w_def)
  also have "\<dots> = Day t"
    by (simp add: w_def DayWithinYear_def)
  finally show "MakeDay (YearFromTime t) (MonthFromTime t) (DateFromTime t) = Day t" .
qed

lemma fields_same_day:
  assumes "Day s = Day t"
  shows "YearFromTime s = YearFromTime t" "MonthFromTime s = MonthFromTime t"
    "DateFromTime s = DateFromTime t"
  using assms
  by (simp_all add: YearFromTime_def MonthFromTime_def DateFromTime_def DayWithinYear_def
      InLeapYear_def)


subsection \<open>ISO strings\<close>

lemma digit_char_digit: "d < 10 \<Longrightarrow> digit_char d \<in> set ''0123456789''"
  unfolding digit_char_def by (rule nth_mem) simp

lemma nat_digits_digits: "set (nat_digits n) \<subseteq> set ''0123456789''"
proof (induction n rule: nat_digits.induct)
  case (1 n)
  show ?case
  proof (cases "n < 10")
    case True
    then show ?thesis
      using digit_char_digit[of n] by (simp only: nat_digits_lt10) simp
  next
    case False
    have "n mod 10 < 10" by simp
    then have "digit_char (n mod 10) \<in> set ''0123456789''"
      by (rule digit_char_digit)
    with "1.IH"[OF False] show ?thesis
      by (simp add: nat_digits_ge10[OF False])
  qed
qed

lemma pad_digits: "set (pad n k) \<subseteq> set ''0123456789''"
  using nat_digits_digits[of "nat k"] by (auto simp add: pad_def)

lemma iso_date_no_T: "CHR ''T'' \<notin> set (iso_date y m d)"
  using pad_digits[of 4 y] pad_digits[of 6 "\<bar>y\<bar>"] pad_digits[of 2 "m + 1"] pad_digits[of 2 d]
  by (auto simp add: iso_date_def year_string_def)

lemma split_T_0_iso_date: "split_T_0 (iso_date y m d @ CHR ''T'' # rest) = iso_date y m d"
proof -
  have "takeWhile (\<lambda>c. c \<noteq> CHR ''T'') (iso_date y m d @ (CHR ''T'' # rest))
        = iso_date y m d @ takeWhile (\<lambda>c. c \<noteq> CHR ''T'') (CHR ''T'' # rest)"
    using iso_date_no_T[of y m d] by (intro takeWhile_append2) auto
  then show ?thesis
    by (simp add: split_T_0_def)
qed

lemma date_part_toISOString:
  "toISOString (Some t) = Inr s \<Longrightarrow>
   split_T_0 s = iso_date (YearFromTime t) (MonthFromTime t) (DateFromTime t)"
  by (auto simp add: toISOString_def split_T_0_iso_date)


subsection \<open>The default period of \<open>getDateRange\<close>\<close>

lemma leap_year_before:
  assumes "DaysInYear y = 366"
  shows "DaysInYear (y - 1) = 365"
proof -
  from assms have "y mod 4 = 0"
    by (simp add: DaysInYear_def split: if_splits)
  then have "(y - 1) mod 4 \<noteq> 0"
    by presburger
  then show ?thesis
    by (simp add: DaysInYear_def)
qed

lemma DaysInMonth_year_before:
  assumes "d \<le> DaysInMonth y m" and "\<not> (m = 1 \<and> d = 29)"
  shows "d \<le> DaysInMonth (y - 1) m"
  using assms by (auto simp add: DaysInMonth_def split: if_splits)

lemma TimeClip_in_years:
  assumes "100 \<le> y" and "y \<le> 275759" and "DayFromYear y \<le> Day t" and "Day t < DayFromYear (y + 1)"
  shows "TimeClip t = Some t"
proof -
  have lo: "DayFromYear 100 \<le> DayFromYear y"
    using assms(1) by (rule DayFromYear_mono)
  have hi: "DayFromYear (y + 1) \<le> DayFromYear 275760"
    using assms(2) by (intro DayFromYear_mono) simp
  have v: "DayFromYear 100 = - 683003" "DayFromYear 275760 = 99999744"
    by (simp_all add: DayFromYear_def)
  define D where "D = t div 86400000"
  have t: "86400000 * D \<le> t" "t < 86400000 * D + 86400000"
    using div_bounds[of 86400000 t] by (simp_all add: D_def)
  have "- 683003 \<le> D" "D < 99999744"
    using lo hi assms(3,4) by (simp_all add: v D_def Day_def msPerDay_def)
  with t have "- 8640000000000000 \<le> t" "t \<le> 8640000000000000"
    by linarith+
  then show ?thesis
    by (simp add: TimeClip_def)
qed

lemma start_of_default:
  assumes off: "- msPerDay < tz (MakeDate (MakeDay y' m d) 0) False"
               "tz (MakeDate (MakeDay y' m d) 0) False \<le> 0"
    and y': "100 \<le> y'" "y' \<le> 275759"
    and m: "0 \<le> m" "m \<le> 11" and d: "1 \<le> d" "d \<le> DaysInMonth y' m"
  shows "\<exists>s. toISOString (new_Date tz y' m d) = Inr s \<and> split_T_0 s = iso_date y' m d"
proof -
  define L where "L = MakeDate (MakeDay y' m d) 0"
  define st where "st = UTC tz L"
  have st: "st = MakeDate (MakeDay y' m d) (- tz L False)"
    by (simp add: st_def UTC_def L_def MakeDate_def)
  have "0 \<le> - tz L False" "- tz L False < msPerDay"
    using off by (simp_all add: L_def)
  then have day: "Day st = MakeDay y' m d"
    unfolding st by (rule Day_MakeDate)
  note f = fields_of_day[OF m d day]
  define l :: int where "l = (if DaysInYear y' = 366 then 1 else 0)"
  have l: "l = 0 \<or> l = 1" and diy: "DaysInYear y' = 365 + l"
    using DaysInYear_cases[of y'] by (auto simp add: l_def)
  have dim: "d \<le> (if m = 1 then 28 + l else if m \<in> {3, 5, 8, 10} then 30 else 31)"
    using d(2) by (simp only: DaysInMonth_leap l_def)
  note s = in_year_of_start[OF l m d(1) dim]
  have mk: "MakeDay y' m d = DayFromYear y' + (month_start l m + d - 1)"
    by (simp only: MakeDay_in_year[OF m] l_def)
  have "DayFromYear y' \<le> Day st" "Day st < DayFromYear (y' + 1)"
    using s(3,4) by (simp_all add: day mk DayFromYear_Suc diy)
  with y' have clip: "TimeClip st = Some st"
    by (rule TimeClip_in_years)
  have full: "MakeFullYear y' = y'"
    using y'(1) by (simp add: MakeFullYear_def)
  have new: "new_Date tz y' m d = Some st"
    by (simp add: new_Date_def full MakeTime_def L_def[symmetric] st_def[symmetric] clip)
  obtain s where s: "toISOString (Some st) = Inr s"
    by (simp add: toISOString_def)
  from date_part_toISOString[OF s] f have "split_T_0 s = iso_date y' m d"
    by simp
  with s new show ?thesis
    by simp
qed

subsection \<open>Evaluation at concrete times\<close>

lemmas calendar_defs =
  YearFromTime_def YearFromDay_def Day_def msPerDay_def DayFromYear_def DaysInYear_def
  MonthFromTime_def DateFromTime_def month_in_year_def date_in_year_def DayWithinYear_def
  InLeapYear_def HourFromTime_def MinFromTime_def SecFromTime_def msFromTime_def
  MakeDay_def MakeDate_def MakeTime_def MakeFullYear_def month_start_def TimeClip_def
  LocalTime_def UTC_def getFullYear_def getMonth_def getDate_def new_Date_def

lemmas iso_defs =
  toISOString_def iso_date_def year_string_def pad_def split_T_0_def
  nat_digits_lt10 nat_digits_ge10 digit_char_def

text \<open>
  On 29 February 2024, noon UTC, in the UTC zone, the default period starts on
  1 March 2023: the previous year has no 29 February.
\<close>

theorem getDateRange_feb29_counterexample:
  "getFullYear utc_zone 1709208000000 = 2024
   \<and> getMonth utc_zone 1709208000000 = 1
   \<and> getDate utc_zone 1709208000000 = 29
   \<and> getDateRange utc_zone 1709208000000 ''year''
     = Inr \<lparr>startDate = ''2023-03-01'', endDate = ''2024-02-29''\<rparr>
   \<and> getDateRange utc_zone 1709208000000 ''year''
     \<noteq> Inr \<lparr>startDate = iso_date (getFullYear utc_zone 1709208000000 - 1)
                              (getMonth utc_zone 1709208000000) (getDate utc_zone 1709208000000),
              endDate = iso_date (getFullYear utc_zone 1709208000000)
                              (getMonth utc_zone 1709208000000) (getDate utc_zone 1709208000000)\<rparr>"
  by (simp add: getDateRange_def utc_zone_def calendar_defs iso_defs Let_def)

text \<open>
  Claim C5, amended. Let the period be none of \<open>mtd\<close>, \<open>qtd\<close>, \<open>ytd\<close>,
  \<open>last_month\<close>, the local date of the call be its UTC date, the zone offset at local
  midnight of the start day be zero or negative (less than a day), and the local year
  lie between 101 and 275760. Then \<open>endDate\<close> is today's ISO date, and \<open>startDate\<close> is
  the ISO date with the current month and day in the previous year, unless today is
  29 February, when it is 1 March of the previous year.
\<close>

theorem getDateRange_default:
  assumes "period \<noteq> ''mtd''" and "period \<noteq> ''qtd''" and "period \<noteq> ''ytd''"
    and "period \<noteq> ''last_month''"
    and "Day now = Day (LocalTime tz now)"
    and "- msPerDay
         < tz (MakeDate (MakeDay (getFullYear tz now - 1) (getMonth tz now) (getDate tz now)) 0) False"
    and "tz (MakeDate (MakeDay (getFullYear tz now - 1) (getMonth tz now) (getDate tz now)) 0) False
         \<le> 0"
    and "100 < getFullYear tz now" and "getFullYear tz now \<le> 275760"
  shows "(\<not> (getMonth tz now = 1 \<and> getDate tz now = 29) \<longrightarrow>
            getDateRange tz now period
            = Inr \<lparr>startDate = iso_date (getFullYear tz now - 1) (getMonth tz now) (getDate tz now),
                   endDate = iso_date (getFullYear tz now) (getMonth tz now) (getDate tz now)\<rparr>)
       \<and> (getMonth tz now = 1 \<and> getDate tz now = 29 \<longrightarrow>
            getDateRange tz now period
            = Inr \<lparr>startDate = iso_date (getFullYear tz now - 1) 2 1,
                   endDate = iso_date (getFullYear tz now) 1 29\<rparr>)"
proof -
  define y m d where "y = getFullYear tz now" and "m = getMonth tz now" and "d = getDate tz now"
  define lt where "lt = LocalTime tz now"
  have ymd: "y = YearFromTime lt" "m = MonthFromTime lt" "d = DateFromTime lt"
    by (simp_all add: y_def m_def d_def lt_def getFullYear_def getMonth_def getDate_def)
  have r: "0 \<le> m" "m \<le> 11" "1 \<le> d" "d \<le> DaysInMonth y m"
    unfolding ymd by (rule fields_range)+
  have y': "100 \<le> y - 1" "y - 1 \<le> 275759"
    using assms(8,9) by (simp_all add: y_def)
  obtain e where e: "toISOString (Some now) = Inr e"
    by (simp add: toISOString_def)
  have "split_T_0 e = iso_date (YearFromTime now) (MonthFromTime now) (DateFromTime now)"
    using e by (rule date_part_toISOString)
  also have "\<dots> = iso_date y m d"
    using fields_same_day[of now lt] assms(5) by (simp add: ymd lt_def)
  finally have endD: "split_T_0 e = iso_date y m d" .
  have start: "new_Date tz (getFullYear tz now - 1) (getMonth tz now) (getDate tz now)
               = new_Date tz (y - 1) m d"
    by (simp add: y_def m_def d_def)
  have unfold: "getDateRange tz now period
        = (case toISOString (new_Date tz (y - 1) m d) of
             Inl e \<Rightarrow> Inl e
           | Inr startISO \<Rightarrow> Inr \<lparr>startDate = split_T_0 startISO, endDate = iso_date y m d\<rparr>)"
    using assms(1-4) by (simp add: getDateRange_def e endD start Let_def)
  have off: "- msPerDay < tz (MakeDate (MakeDay (y - 1) m d) 0) False"
     "tz (MakeDate (MakeDay (y - 1) m d) 0) False \<le> 0"
    using assms(6,7) by (simp_all add: y_def m_def d_def)
  have common: "\<not> (m = 1 \<and> d = 29) \<Longrightarrow>
      getDateRange tz now period = Inr \<lparr>startDate = iso_date (y - 1) m d, endDate = iso_date y m d\<rparr>"
  proof -
    assume n: "\<not> (m = 1 \<and> d = 29)"
    from r(4) n have "d \<le> DaysInMonth (y - 1) m"
      by (rule DaysInMonth_year_before)
    from start_of_default[where tz = tz and y' = "y - 1" and m = m and d = d, OF off y' r(1,2,3) this]
    obtain s where "toISOString (new_Date tz (y - 1) m d) = Inr s" "split_T_0 s = iso_date (y - 1) m d"
      by blast
    then show ?thesis
      by (simp add: unfold)
  qed
  have feb29: "m = 1 \<and> d = 29 \<Longrightarrow>
      getDateRange tz now period = Inr \<lparr>startDate = iso_date (y - 1) 2 1, endDate = iso_date y 1 29\<rparr>"
  proof -
    assume f: "m = 1 \<and> d = 29"
    with r(4) have "DaysInYear y = 366"
      by (simp add: DaysInMonth_def split: if_splits)
    then have c: "DaysInYear (y - 1) = 365"
      by (rule leap_year_before)
    have same: "MakeDay (y - 1) 1 29 = MakeDay (y - 1) 2 1"
      by (simp add: MakeDay_def c month_start_def)
    have off': "- msPerDay < tz (MakeDate (MakeDay (y - 1) 2 1) 0) False"
      "tz (MakeDate (MakeDay (y - 1) 2 1) 0) False \<le> 0"
      using off f by (simp_all add: same)
    have full: "MakeFullYear (y - 1) = y - 1"
      using y'(1) by (simp add: MakeFullYear_def)
    have n: "new_Date tz (y - 1) m d = new_Date tz (y - 1) 2 1"
      using f by (simp add: new_Date_def full same)
    have "(1::int) \<le> DaysInMonth (y - 1) 2"
      by (simp add: DaysInMonth_def)
    from start_of_default[where tz = tz and y' = "y - 1" and m = 2 and d = 1, OF off' y' _ _ _ this]
    obtain s where "toISOString (new_Date tz (y - 1) 2 1) = Inr s" "split_T_0 s = iso_date (y - 1) 2 1"
      by auto
    then show ?thesis
      unfolding unfold n using f by simp
  qed
  from common feb29 show ?thesis
    unfolding y_def m_def d_def by blast
qed


theorem getDateRange_default_witness:
  "''year'' \<noteq> ''mtd'' \<and> ''year'' \<noteq> ''qtd'' \<and> ''year'' \<noteq> ''ytd'' \<and> ''year'' \<noteq> ''last_month''
   \<and> Day 1710496800000 = Day (LocalTime utc_zone 1710496800000)
   \<and> getFullYear utc_zone 1710496800000 = 2024
   \<and> getMonth utc_zone 1710496800000 = 2
   \<and> getDate utc_zone 1710496800000 = 15
   \<and> getDateRange utc_zone 1710496800000 ''year''
     = Inr \<lparr>startDate = ''2023-03-15'', endDate = ''2024-03-15''\<rparr>"
proof -
  have f: "getFullYear utc_zone 1710496800000 = 2024" "getMonth utc_zone 1710496800000 = 2"
    "getDate utc_zone 1710496800000 = 15"
    by (simp_all add: utc_zone_def calendar_defs)
  have l: "LocalTime utc_zone 1710496800000 = 1710496800000"
    by (simp add: LocalTime_def utc_zone_def)
  have i: "iso_date 2023 2 15 = ''2023-03-15''" "iso_date 2024 2 15 = ''2024-03-15''"
    by (simp_all add: iso_defs)
  from getDateRange_default[of "''year''" 1710496800000 utc_zone]
  show ?thesis
    by (simp add: f l i) (simp add: utc_zone_def msPerDay_def)
qed

subsection \<open>Reading back what \<open>toISOString\<close> writes\<close>

lemma digit_char_value:
  assumes "d < 10"
  shows "is_digit (digit_char d)" and "digit_value (digit_char d) = d"
proof -
  from assms have "d = 0 \<or> d = 1 \<or> d = 2 \<or> d = 3 \<or> d = 4 \<or> d = 5 \<or> d = 6 \<or> d = 7
      \<or> d = 8 \<or> d = 9"
    by presburger
  then show "is_digit (digit_char d)" and "digit_value (digit_char d) = d"
    by (auto simp add: digit_char_def is_digit_def digit_value_def)
qed

lemma digits_value_append:
  "digits_value a (xs @ ys) = Option.bind (digits_value a xs) (\<lambda>b. digits_value b ys)"
  by (induction xs arbitrary: a) simp_all

lemma digits_value_nat_digits: "digits_value 0 (nat_digits n) = Some n"
proof (induction n rule: nat_digits.induct)
  case (1 n)
  show ?case
  proof (cases "n < 10")
    case True
    then show ?thesis
      by (simp add: nat_digits_lt10 digit_char_value)
  next
    case False
    have "n mod 10 < 10" by simp
    note dv = digit_char_value[OF this]
    have "10 * (n div 10) + n mod 10 = n" by simp
    then show ?thesis
      by (simp add: nat_digits_ge10[OF False] digits_value_append "1.IH"[OF False] dv)
  qed
qed

lemma digits_value_zeros: "digits_value 0 (replicate k (CHR ''0'') @ ds) = digits_value 0 ds"
  by (induction k) (simp_all add: is_digit_def digit_value_def)

lemma digits_value_pad: "digits_value 0 (pad w k) = Some (nat k)"
  by (simp add: pad_def digits_value_zeros digits_value_nat_digits)

lemma length_nat_digits: "n < 10 ^ w \<Longrightarrow> 0 < w \<Longrightarrow> length (nat_digits n) \<le> w"
proof (induction n arbitrary: w rule: nat_digits.induct)
  case (1 n)
  show ?case
  proof (cases "n < 10")
    case True
    with "1.prems" show ?thesis
      by (simp add: nat_digits_lt10)
  next
    case False
    from "1.prems" obtain v where w: "w = Suc v"
      by (cases w) auto
    with False "1.prems" have v: "0 < v"
      by (cases v) auto
    from "1.prems" w have "n div 10 < 10 ^ v"
      by (simp add: less_mult_imp_div_less mult.commute)
    from "1.IH"[OF False this v] show ?thesis
      by (simp add: nat_digits_ge10[OF False] w)
  qed
qed

lemma length_pad: "nat k < 10 ^ w \<Longrightarrow> 0 < w \<Longrightarrow> length (pad w k) = w"
  using length_nat_digits[of "nat k" w] by (simp add: pad_def)

lemma take_digits_pad:
  assumes "0 \<le> k" and "nat k < 10 ^ w" and "0 < w"
  shows "take_digits w (pad w k @ rest) = Some (k, rest)"
  using assms by (simp add: take_digits_def length_pad digits_value_pad)

lemma expect_Cons: "expect c (c # rest) = Some rest"
  by (simp add: expect_def)





lemma toISOString_Some: "\<exists>stamp. toISOString (Some t) = Inr stamp"
  by (simp add: toISOString_def)

lemma nat_digits_nonempty: "nat_digits n \<noteq> []"
  by (subst nat_digits.simps) simp

lemma Number_toString_nonempty: "Number_toString i \<noteq> []"
  by (simp add: Number_toString_def nat_digits_nonempty)

lemma pad_head:
  assumes "0 < w"
  shows "\<exists>c cs. pad w k = c # cs \<and> c \<noteq> CHR ''+'' \<and> c \<noteq> CHR ''-''"
proof -
  have "pad w k \<noteq> []"
    by (simp add: pad_def nat_digits_nonempty)
  then obtain c cs where p: "pad w k = c # cs"
    by (cases "pad w k") auto
  with pad_digits[of w k] have "c \<in> set ''0123456789''"
    by auto
  then have "c \<noteq> CHR ''+''" "c \<noteq> CHR ''-''"
    by auto
  with p show ?thesis
    by blast
qed

lemma parse_year_string:
  assumes "- 1000000 < y" and "y < 1000000"
  shows "parse_year (year_string y @ rest) = Some (y, rest)"
proof (cases "0 \<le> y \<and> y \<le> 9999")
  case True
  then have t: "take_digits 4 (pad 4 y @ rest) = Some (y, rest)"
    by (intro take_digits_pad) auto
  from pad_head[of 4 y] obtain c cs where "pad 4 y = c # cs" "c \<noteq> CHR ''+''" "c \<noteq> CHR ''-''"
    by auto
  with t True show ?thesis
    by (simp add: parse_year_def year_string_def)
next
  case False
  show ?thesis
  proof (cases "y < 0")
    case True
    with assms have "take_digits 6 (pad 6 \<bar>y\<bar> @ rest) = Some (\<bar>y\<bar>, rest)"
      by (intro take_digits_pad) simp_all
    with True show ?thesis
      by (simp add: parse_year_def year_string_def)
  next
    case n: False
    with assms have "take_digits 6 (pad 6 \<bar>y\<bar> @ rest) = Some (\<bar>y\<bar>, rest)"
      by (intro take_digits_pad) simp_all
    with n False show ?thesis
      by (simp add: parse_year_def year_string_def)
  qed
qed

lemma time_fields_range:
  "0 \<le> HourFromTime t" "HourFromTime t \<le> 23" "0 \<le> MinFromTime t" "MinFromTime t \<le> 59"
  "0 \<le> SecFromTime t" "SecFromTime t \<le> 59" "0 \<le> msFromTime t" "msFromTime t \<le> 999"
proof -
  have "HourFromTime t < 24" "MinFromTime t < 60" "SecFromTime t < 60" "msFromTime t < 1000"
    by (simp_all add: HourFromTime_def MinFromTime_def SecFromTime_def msFromTime_def)
  then show "HourFromTime t \<le> 23" "MinFromTime t \<le> 59" "SecFromTime t \<le> 59"
    "msFromTime t \<le> 999"
    by simp_all
  show "0 \<le> HourFromTime t" "0 \<le> MinFromTime t" "0 \<le> SecFromTime t" "0 \<le> msFromTime t"
    by (simp_all add: HourFromTime_def MinFromTime_def SecFromTime_def msFromTime_def)
qed

lemma time_recompose:
  "MakeDate (Day t)
     (MakeTime (HourFromTime t) (MinFromTime t) (SecFromTime t) (msFromTime t)) = t"
proof -
  define a b c where "a = t div 1000" and "b = a div 60" and "c = b div 60"
  have d1: "t div 60000 = b"
    using zdiv_zmult2_eq[of 60 t 1000] by (simp add: a_def b_def)
  have d2: "t div 3600000 = c"
    using zdiv_zmult2_eq[of 60 t 60000] by (simp add: d1 c_def)
  have d3: "t div 86400000 = c div 24"
    using zdiv_zmult2_eq[of 24 t 3600000] by (simp add: d2)
  have e: "t = 1000 * a + t mod 1000" "a = 60 * b + a mod 60" "b = 60 * c + b mod 60"
    "c = 24 * (c div 24) + c mod 24"
    by (simp_all add: a_def b_def c_def)
  have "c div 24 * 86400000 + (c mod 24 * 3600000 + b mod 60 * 60000 + a mod 60 * 1000 + t mod 1000)
        = t"
    using e by linarith
  then show ?thesis
    by (simp add: MakeDate_def MakeTime_def Day_def msPerDay_def HourFromTime_def MinFromTime_def
        SecFromTime_def msFromTime_def d1 d2 d3 a_def[symmetric])
qed

lemma year_of_valid_time:
  assumes "\<bar>t\<bar> \<le> 8640000000000000"
  shows "- 271821 \<le> YearFromTime t" and "YearFromTime t \<le> 275760"
proof -
  define D where "D = Day t"
  have t: "86400000 * D \<le> t" "t < 86400000 * D + 86400000"
    using div_bounds[of 86400000 t] by (simp_all add: D_def Day_def msPerDay_def)
  with assms have D: "- 100000000 \<le> D" "D \<le> 100000000"
    by linarith+
  have b: "DayFromYear (YearFromTime t) \<le> D" "D < DayFromYear (YearFromTime t + 1)"
    unfolding YearFromTime_def D_def by (rule YearFromDay_bracket(1), rule YearFromDay_bracket(2))
  have v: "DayFromYear 275761 = 100000110" "DayFromYear (- 271821) = - 100000109"
    by (simp_all add: DayFromYear_def)
  show "YearFromTime t \<le> 275760"
  proof (rule ccontr)
    assume "\<not> YearFromTime t \<le> 275760"
    then have "DayFromYear 275761 \<le> DayFromYear (YearFromTime t)"
      by (intro DayFromYear_mono) simp
    with b D v show False
      by linarith
  qed
  show "- 271821 \<le> YearFromTime t"
  proof (rule ccontr)
    assume "\<not> - 271821 \<le> YearFromTime t"
    then have "DayFromYear (YearFromTime t + 1) \<le> DayFromYear (- 271821)"
      by (intro DayFromYear_mono) simp
    with b D v show False
      by linarith
  qed
qed

lemma TimeClip_valid: "\<bar>t\<bar> \<le> 8640000000000000 \<Longrightarrow> TimeClip t = Some t"
  by (simp add: TimeClip_def)

lemma DaysInMonth_le_31: "DaysInMonth y m \<le> 31"
  by (simp add: DaysInMonth_def)

lemma Date_parse_toISOString:
  assumes "\<bar>t\<bar> \<le> 8640000000000000" and "toISOString (Some t) = Inr stamp"
  shows "Date_parse stamp = Some t"
proof -
  define y m d where "y = YearFromTime t" and "m = MonthFromTime t" and "d = DateFromTime t"
  define h mi sec ms where "h = HourFromTime t" and "mi = MinFromTime t"
    and "sec = SecFromTime t" and "ms = msFromTime t"
  note yr = year_of_valid_time[OF assms(1), folded y_def]
  note fr = fields_range[of t, folded y_def m_def d_def]
  note tr = time_fields_range[of t, folded h_def mi_def sec_def ms_def]
  from fr(4) DaysInMonth_le_31[of y m] have d31: "d \<le> 31"
    by linarith
  have stamp: "stamp = year_string y @ CHR ''-'' # pad 2 (m + 1) @ CHR ''-'' # pad 2 d
      @ CHR ''T'' # pad 2 h @ CHR '':'' # pad 2 mi @ CHR '':'' # pad 2 sec @ CHR ''.'' # pad 3 ms
      @ ''Z''"
    using assms(2)
    by (simp add: toISOString_def iso_date_def y_def m_def d_def h_def mi_def sec_def ms_def)
  have p1: "parse_year (year_string y @ rest) = Some (y, rest)" for rest
    using yr by (intro parse_year_string) simp_all
  have p2: "take_digits 2 (pad 2 (m + 1) @ rest) = Some (m + 1, rest)"
    "take_digits 2 (pad 2 d @ rest) = Some (d, rest)"
    "take_digits 2 (pad 2 h @ rest) = Some (h, rest)"
    "take_digits 2 (pad 2 mi @ rest) = Some (mi, rest)"
    "take_digits 2 (pad 2 sec @ rest) = Some (sec, rest)"
    "take_digits 3 (pad 3 ms @ rest) = Some (ms, rest)" for rest
    using fr(1,2,3) d31 tr by (intro take_digits_pad; simp)+
  have whole: "MakeDate (MakeDay y m d) (MakeTime h mi sec ms) = t"
    using time_recompose[of t] fr(5)
    by (simp add: h_def mi_def sec_def ms_def)
  have ok: "\<not> m < 0" "\<not> 12 \<le> m" "\<not> d < 1" "\<not> DaysInMonth y m < d" "\<not> 23 < h" "\<not> 59 < mi"
    "\<not> 59 < sec"
    using fr tr by simp_all
  show ?thesis
    unfolding stamp Date_parse_def
    by (simp add: p1 p2 expect_Cons ok whole TimeClip_valid[OF assms(1)] del: append_assoc)
qed

subsection \<open>Tracked items\<close>

text \<open>
  Claim C10. When the store holds an array (or nothing), \<open>addTrackedItem\<close> appends and
  persists a record whose \<open>id\<close> is the current time in milliseconds as a decimal
  string and whose \<open>dateAdded\<close> is the current ISO timestamp, whatever \<open>id\<close> or
  \<open>dateAdded\<close> the caller's item had; every other property of the item is in the
  record with its value, and the record has no further properties.
\<close>

theorem addTrackedItem_record:
  assumes "getTrackedItems store = Inr (JArr xs)"
  shows "\<exists>stamp fields.
           toISOString (Some now2) = Inr stamp
         \<and> addTrackedItem item store now1 now2
           = Inr (store(''trackedItems'' \<mapsto> JSON_stringify (JArr (xs @ [JObj fields]))),
                  JArr (xs @ [JObj fields]))
         \<and> map_of fields ''id'' = Some (JStr (Number_toString now1))
         \<and> map_of fields ''dateAdded'' = Some (JStr stamp)
         \<and> (\<forall>k. k \<noteq> ''id'' \<and> k \<noteq> ''dateAdded'' \<longrightarrow> map_of fields k = map_of (spread item) k)
         \<and> set (map fst fields) = set (map fst (spread item)) \<union> {''id'', ''dateAdded''}"
proof -
  obtain stamp where stamp: "toISOString (Some now2) = Inr stamp"
    using toISOString_Some by blast
  define fields where
    "fields = AList.update ''dateAdded'' (JStr stamp)
                (AList.update ''id'' (JStr (Number_toString now1)) (spread item))"
  have add: "addTrackedItem item store now1 now2
           = Inr (store(''trackedItems'' \<mapsto> JSON_stringify (JArr (xs @ [JObj fields]))),
                  JArr (xs @ [JObj fields]))"
    by (simp add: addTrackedItem_def assms stamp fields_def Let_def)
  have m: "map_of fields
           = ((map_of (spread item))(''id'' \<mapsto> JStr (Number_toString now1)))
               (''dateAdded'' \<mapsto> JStr stamp)"
    by (simp add: fields_def update_conv')
  have k: "set (map fst fields) = set (map fst (spread item)) \<union> {''id'', ''dateAdded''}"
    unfolding fields_def set_map dom_update by blast
  from stamp add k show ?thesis
    by (intro exI[of _ stamp] exI[of _ fields]) (simp add: m)
qed



theorem addTrackedItem_record_witness:
  "getTrackedItems (Map.empty :: int storage) = Inr (JArr [])
   \<and> map_sum (\<lambda>e. e) snd
        (addTrackedItem (JObj [(''id'', JStr ''mine''), (''name'', JStr ''x'')])
           (Map.empty :: int storage) 1710496800123 1710496800124)
     = Inr (JArr [JObj [(''id'', JStr ''1710496800123''), (''name'', JStr ''x''),
                        (''dateAdded'', JStr ''2024-03-15T10:00:00.124Z'')]])
   \<and> (\<exists>stamp fields.
           toISOString (Some 1710496800124) = Inr stamp
         \<and> addTrackedItem (JObj [(''id'', JStr ''mine''), (''name'', JStr ''x'')])
             (Map.empty :: int storage) 1710496800123 1710496800124
           = Inr (Map.empty(''trackedItems'' \<mapsto> JSON_stringify (JArr ([] @ [JObj fields]))),
                  JArr ([] @ [JObj fields]))
         \<and> map_of fields ''id'' = Some (JStr (Number_toString 1710496800123))
         \<and> map_of fields ''name'' = Some (JStr ''x''))"
proof -
  have g: "getTrackedItems (Map.empty :: int storage) = Inr (JArr [])"
    by (simp add: getTrackedItems_def)
  have e: "toISOString (Some 1710496800124) = Inr ''2024-03-15T10:00:00.124Z''"
    by (simp add: calendar_defs iso_defs)
  have n: "Number_toString 1710496800123 = ''1710496800123''"
    by (simp add: Number_toString_def nat_digits_lt10 nat_digits_ge10 digit_char_def)
  have ev: "map_sum (\<lambda>e. e) snd
        (addTrackedItem (JObj [(''id'', JStr ''mine''), (''name'', JStr ''x'')])
           (Map.empty :: int storage) 1710496800123 1710496800124)
     = Inr (JArr [JObj [(''id'', JStr ''1710496800123''), (''name'', JStr ''x''),
                        (''dateAdded'', JStr ''2024-03-15T10:00:00.124Z'')]])"
    by (simp add: addTrackedItem_def g e n spread_def Let_def)
  from addTrackedItem_record[OF g, of 1710496800124
      "JObj [(''id'', JStr ''mine''), (''name'', JStr ''x'')]" 1710496800123]
  obtain stamp fields where
    c: "toISOString (Some 1710496800124) = Inr stamp"
      "addTrackedItem (JObj [(''id'', JStr ''mine''), (''name'', JStr ''x'')])
             (Map.empty :: int storage) 1710496800123 1710496800124
           = Inr (Map.empty(''trackedItems'' \<mapsto> JSON_stringify (JArr ([] @ [JObj fields]))),
                  JArr ([] @ [JObj fields]))"
      "map_of fields ''id'' = Some (JStr (Number_toString 1710496800123))"
      "\<forall>k. k \<noteq> ''id'' \<and> k \<noteq> ''dateAdded'' \<longrightarrow>
           map_of fields k = map_of (spread (JObj [(''id'', JStr ''mine''), (''name'', JStr ''x'')])) k"
    by (elim exE conjE)
  from c(4) have "map_of fields ''name'' = Some (JStr ''x'')"
    by (simp add: spread_def)
  with c(1,2,3) have "\<exists>stamp fields.
           toISOString (Some 1710496800124) = Inr stamp
         \<and> addTrackedItem (JObj [(''id'', JStr ''mine''), (''name'', JStr ''x'')])
             (Map.empty :: int storage) 1710496800123 1710496800124
           = Inr (Map.empty(''trackedItems'' \<mapsto> JSON_stringify (JArr ([] @ [JObj fields]))),
                  JArr ([] @ [JObj fields]))
         \<and> map_of fields ''id'' = Some (JStr (Number_toString 1710496800123))
         \<and> map_of fields ''name'' = Some (JStr ''x'')"
    by (intro exI conjI)
  with g ev show ?thesis
    by (intro conjI)
qed


text \<open>
  Claim C8. With nothing stored under \<open>trackedItems\<close>, \<open>addTrackedItem({name:"x"})\<close>
  followed by \<open>getTrackedItems\<close> yields exactly one record; its \<open>id\<close> is a non-empty
  string and its \<open>dateAdded\<close> reads back as an ISO timestamp, the time of the call.
  \<open>removeTrackedItem\<close> with that \<open>id\<close> followed by \<open>getTrackedItems\<close> yields the empty
  sequence. The time value of \<open>new Date()\<close> is taken in the range of valid dates.
\<close>

theorem tracked_item_add_list_remove:
  assumes "store ''trackedItems'' = None" and "\<bar>now2\<bar> \<le> 8640000000000000"
  shows "\<exists>stamp store1 store2.
           toISOString (Some now2) = Inr stamp
         \<and> addTrackedItem (JObj [(''name'', JStr ''x'')]) store now1 now2
           = Inr (store1,
                  JArr [JObj [(''name'', JStr ''x''), (''id'', JStr (Number_toString now1)),
                              (''dateAdded'', JStr stamp)]])
         \<and> getTrackedItems store1
           = Inr (JArr [JObj [(''name'', JStr ''x''), (''id'', JStr (Number_toString now1)),
                              (''dateAdded'', JStr stamp)]])
         \<and> Number_toString now1 \<noteq> []
         \<and> Date_parse stamp = Some now2
         \<and> removeTrackedItem (JStr (Number_toString now1)) store1 = Inr (store2, JArr [])
         \<and> getTrackedItems store2 = Inr (JArr [])"
proof -
  obtain stamp where stamp: "toISOString (Some now2) = Inr stamp"
    using toISOString_Some by blast
  define r :: "'a jsval" where
    "r = JObj [(''name'', JStr ''x''), (''id'', JStr (Number_toString now1)),
               (''dateAdded'', JStr stamp)]"
  define store1 where "store1 = store(''trackedItems'' \<mapsto> JSON_stringify (JArr [r]))"
  define store2 where "store2 = store1(''trackedItems'' \<mapsto> JSON_stringify (JArr ([] :: 'a jsval list)))"
  have g0: "getTrackedItems store = Inr (JArr [])"
    by (simp add: getTrackedItems_def assms(1))
  have add: "addTrackedItem (JObj [(''name'', JStr ''x'')]) store now1 now2 = Inr (store1, JArr [r])"
    by (simp add: addTrackedItem_def g0 stamp spread_def r_def store1_def Let_def)
  have g1: "getTrackedItems store1 = Inr (JArr [r])"
    by (simp add: getTrackedItems_def store1_def JSON_stringify_def JSON_parse_def)
  have rem: "removeTrackedItem (JStr (Number_toString now1)) store1 = Inr (store2, JArr [])"
    by (simp add: removeTrackedItem_def g1 r_def get_id_def strict_neq_def store2_def)
  have g2: "getTrackedItems store2 = Inr (JArr [])"
    by (simp add: getTrackedItems_def store2_def JSON_stringify_def JSON_parse_def)
  have p: "Date_parse stamp = Some now2"
    using assms(2) stamp by (rule Date_parse_toISOString)
  from stamp add g1 rem g2 p Number_toString_nonempty[of now1] show ?thesis
    unfolding r_def by blast
qed


theorem tracked_item_add_list_remove_witness:
  "(Map.empty :: int storage) ''trackedItems'' = None
   \<and> \<bar>1710496800124 :: int\<bar> \<le> 8640000000000000
   \<and> toISOString (Some 1710496800124) = Inr ''2024-03-15T10:00:00.124Z''
   \<and> Date_parse ''2024-03-15T10:00:00.124Z'' = Some 1710496800124
   \<and> (\<exists>store1 store2.
         addTrackedItem (JObj [(''name'', JStr ''x'')]) (Map.empty :: int storage)
           1710496800123 1710496800124
         = Inr (store1,
                JArr [JObj [(''name'', JStr ''x''), (''id'', JStr ''1710496800123''),
                            (''dateAdded'', JStr ''2024-03-15T10:00:00.124Z'')]])
       \<and> removeTrackedItem (JStr ''1710496800123'') store1 = Inr (store2, JArr [])
       \<and> getTrackedItems store2 = Inr (JArr []))"
proof -
  have s: "(Map.empty :: int storage) ''trackedItems'' = None"
    by simp
  have h: "\<bar>1710496800124 :: int\<bar> \<le> 8640000000000000"
    by simp
  have e: "toISOString (Some 1710496800124) = Inr ''2024-03-15T10:00:00.124Z''"
    by (simp add: calendar_defs iso_defs)
  have n: "Number_toString 1710496800123 = ''1710496800123''"
    by (simp add: Number_toString_def nat_digits_lt10 nat_digits_ge10 digit_char_def)
  from tracked_item_add_list_remove[OF s h, of 1710496800123]
  obtain stamp store1 store2 where
    t: "toISOString (Some 1710496800124) = Inr stamp"
    and a: "addTrackedItem (JObj [(''name'', JStr ''x'')]) (Map.empty :: int storage)
           1710496800123 1710496800124
         = Inr (store1,
                JArr [JObj [(''name'', JStr ''x''), (''id'', JStr (Number_toString 1710496800123)),
                            (''dateAdded'', JStr stamp)]])"
    and p: "Date_parse stamp = Some 1710496800124"
    and r: "removeTrackedItem (JStr (Number_toString 1710496800123)) store1 = Inr (store2, JArr [])"
    and g: "getTrackedItems store2 = Inr (JArr [])"
    by (elim exE conjE)
  from t e have stamp: "stamp = ''2024-03-15T10:00:00.124Z''"
    by simp
  from a r g have "\<exists>store1 store2.
         addTrackedItem (JObj [(''name'', JStr ''x'')]) (Map.empty :: int storage)
           1710496800123 1710496800124
         = Inr (store1,
                JArr [JObj [(''name'', JStr ''x''), (''id'', JStr ''1710496800123''),
                            (''dateAdded'', JStr ''2024-03-15T10:00:00.124Z'')]])
       \<and> removeTrackedItem (JStr ''1710496800123'') store1 = Inr (store2, JArr [])
       \<and> getTrackedItems store2 = Inr (JArr [])"
    unfolding stamp n by (intro exI conjI)
  with s h e p[unfolded stamp] show ?thesis
    by (intro conjI)
qed

subsection \<open>The chart object\<close>

lemma createWaterfallChart_data:
  "createWaterfallChart canvases currentChart canvasId data = Inr c \<Longrightarrow>
   chart_data c = chartData_of data \<and> chart_labels c = labels"
  by (auto simp add: createWaterfallChart_def split: if_splits)

lemma createWaterfallChart_returns:
  "canvasId \<in> canvases \<Longrightarrow> \<exists>c. createWaterfallChart canvases currentChart canvasId data = Inr c"
  by (simp add: createWaterfallChart_def)

end
